theory Spec2Isabelle
  imports Main
begin

section \<open>The SUZI reminder server: embedding\<close>

text \<open>
  The repository holds two copies of the server (called variant 1 and variant 2 below,
  in the order they appear in the source).  They share the reminder sweep and the
  webhook, and differ in three places: variant 2 guards \<open>sendLine\<close>, \<open>reply\<close> and
  \<open>verifySignature\<close> with a check of the credential, and variant 1 wraps the work
  done for one identity of the sweep in \<open>try/catch\<close>.
\<close>

datatype variant = V1 | V2

subsection \<open>Dates\<close>

text \<open>
  A JavaScript \<open>Date\<close> is a number of milliseconds since the epoch, or \<open>NaN\<close> (an
  invalid date); \<open>None\<close> stands for \<open>NaN\<close>, and every comparison with it is false.
  The host's timezone is a fixed offset \<open>tz\<close> in milliseconds east of UTC (0 for a
  host on UTC, \<open>tokyoOffset\<close> for a host on Asia/Tokyo, which has no daylight saving).
\<close>

definition tokyoOffset :: int where
  "tokyoOffset = 9 * 3600000"

definition maxTime :: int where
  "maxTime = 8640000000000000"

definition timeClip :: "int \<Rightarrow> int option" where
  "timeClip t = (if - maxTime \<le> t \<and> t \<le> maxTime then Some t else None)"

text \<open>
  What \<open>new Date(r.timeISO)\<close> reads, by the shape of the string: \<open>Instant t\<close> is a
  string with a UTC designator or offset (what \<open>toISOString\<close> writes), naming the
  instant \<open>t\<close>; \<open>LocalCivil c\<close> is a date and time without offset, read as the host's
  local time, \<open>c\<close> being its fields counted in milliseconds from 1970-01-01T00:00;
  \<open>Unparsable\<close> is anything else, a missing field included.
\<close>

datatype timeISO = Instant int | LocalCivil int | Unparsable

fun parseDate :: "int \<Rightarrow> timeISO \<Rightarrow> int option" where
  "parseDate tz (Instant t) = timeClip t"
| "parseDate tz (LocalCivil c) = timeClip (c - tz)"
| "parseDate tz Unparsable = None"

text \<open>The civil fields a \<open>Date\<close> shows through its local getters on the host.\<close>

definition localCivil :: "int \<Rightarrow> int \<Rightarrow> int" where
  "localCivil tz t = t + tz"

text \<open>The civil time of an instant in Asia/Tokyo.\<close>

definition tokyoCivil :: "int \<Rightarrow> int" where
  "tokyoCivil t = t + tokyoOffset"

text \<open>
  \<open>new Date(new Date().toLocaleString("en-US", {timeZone: "Asia/Tokyo"}))\<close> at the
  instant \<open>t\<close>: the string holds Tokyo's civil date and time to the second, and the
  outer constructor reads it as the host's local time.
\<close>

definition computeNow :: "int \<Rightarrow> int \<Rightarrow> int" where
  "computeNow tz t = (tokyoCivil t div 1000) * 1000 - tz"

text \<open>\<open>m = new Date(eventTime); m.setHours(8, 0, 0, 0)\<close>: 08:00 local on the local date.\<close>

definition setHours8 :: "int \<Rightarrow> int \<Rightarrow> int option" where
  "setHours8 tz t = timeClip ((localCivil tz t div 86400000) * 86400000 + 8 * 3600000 - tz)"

subsection \<open>Reminders and the three triggers\<close>

record reminder =
  rtext :: string
  timeISO :: timeISO
  morning :: bool
  oneHour :: bool
  morningSent :: bool
  oneHourSent :: bool
  exactSent :: bool

datatype kind = Morning | OneHour | Exact

definition morningDue :: "int \<Rightarrow> int \<Rightarrow> reminder \<Rightarrow> bool" where
  "morningDue tz now r =
     (morning r \<and> \<not> morningSent r \<and>
      (case parseDate tz (timeISO r) of
         None \<Rightarrow> False
       | Some eventTime \<Rightarrow>
           (case setHours8 tz eventTime of None \<Rightarrow> False | Some m \<Rightarrow> now \<ge> m)))"

definition oneHourDue :: "int \<Rightarrow> int \<Rightarrow> reminder \<Rightarrow> bool" where
  "oneHourDue tz now r =
     (oneHour r \<and> \<not> oneHourSent r \<and>
      (case parseDate tz (timeISO r) of
         None \<Rightarrow> False
       | Some eventTime \<Rightarrow>
           (case timeClip (eventTime - 60 * 60 * 1000) of None \<Rightarrow> False | Some h \<Rightarrow> now \<ge> h)))"

definition exactDue :: "int \<Rightarrow> int \<Rightarrow> reminder \<Rightarrow> bool" where
  "exactDue tz now r =
     (\<not> exactSent r \<and>
      (case parseDate tz (timeISO r) of
         None \<Rightarrow> False
       | Some eventTime \<Rightarrow> now - eventTime \<ge> 0 \<and> now - eventTime < 10 * 60 * 1000))"

fun due :: "int \<Rightarrow> int \<Rightarrow> kind \<Rightarrow> reminder \<Rightarrow> bool" where
  "due tz now Morning r = morningDue tz now r"
| "due tz now OneHour r = oneHourDue tz now r"
| "due tz now Exact r = exactDue tz now r"

fun sent :: "kind \<Rightarrow> reminder \<Rightarrow> bool" where
  "sent Morning r = morningSent r"
| "sent OneHour r = oneHourSent r"
| "sent Exact r = exactSent r"

text \<open>\<open>db.ref(`reminders/${safeEmail}/${id}/<kind>Sent`).set(true)\<close>, when it succeeds.\<close>

fun markSent :: "kind \<Rightarrow> reminder \<Rightarrow> reminder" where
  "markSent Morning r = r\<lparr>morningSent := True\<rparr>"
| "markSent OneHour r = r\<lparr>oneHourSent := True\<rparr>"
| "markSent Exact r = r\<lparr>exactSent := True\<rparr>"

subsection \<open>One tick of the sweep\<close>

text \<open>
  What a tick does that can be seen: \<open>SendLine owner rid k uid txt\<close> is the call
  \<open>sendLine(uid, <template of k> + txt)\<close> made for the reminder \<open>rid\<close> of the identity
  \<open>owner\<close>; \<open>ConsoleError owner\<close> is the \<open>console.error\<close> of variant 1's handler.
  The store's operations are \<open>dbop\<close>; an oracle \<open>fails\<close> says which of them reject.
\<close>

datatype effect = SendLine string string kind string string | ConsoleError string

datatype dbop = GetReminders | GetLink string | SetSent string string kind

datatype completion = Returned | Threw

type_synonym reminders = "(string \<times> reminder option) list"

type_synonym store = "(string \<times> reminders) list"

text \<open>
  One of the three blocks of the loop body: when the trigger is due, \<open>sendLine\<close> (which
  never throws, see \<open>sendLine\<close> below) and then the write of the flag, which may reject.
  The conditions read the snapshot \<open>r0\<close>; the writes go to the store.
\<close>

definition fire ::
  "(dbop \<Rightarrow> bool) \<Rightarrow> string \<Rightarrow> string \<Rightarrow> string \<Rightarrow> reminder \<Rightarrow> kind \<Rightarrow> bool \<Rightarrow>
   effect list \<times> reminder \<times> completion \<Rightarrow> effect list \<times> reminder \<times> completion" where
  "fire fails owner uid rid r0 k isDue st =
     (case st of (log, r, c) \<Rightarrow>
        if c = Threw then st
        else if isDue then
          (if fails (SetSent owner rid k)
           then (log @ [SendLine owner rid k uid (rtext r0)], r, Threw)
           else (log @ [SendLine owner rid k uid (rtext r0)], markSent k r, Returned))
        else st)"

definition evalReminder ::
  "(dbop \<Rightarrow> bool) \<Rightarrow> int \<Rightarrow> int \<Rightarrow> string \<Rightarrow> string \<Rightarrow> string \<Rightarrow> reminder \<Rightarrow>
   effect list \<times> reminder \<times> completion" where
  "evalReminder fails tz now owner uid rid r =
     fire fails owner uid rid r Exact (exactDue tz now r)
       (fire fails owner uid rid r OneHour (oneHourDue tz now r)
          (fire fails owner uid rid r Morning (morningDue tz now r) ([], r, Returned)))"

text \<open>
  The loop over the reminders of one identity.  A record that is \<open>null\<close> (\<open>None\<close>)
  throws a TypeError at \<open>r.timeISO\<close>.
\<close>

fun evalReminders ::
  "(dbop \<Rightarrow> bool) \<Rightarrow> int \<Rightarrow> int \<Rightarrow> string \<Rightarrow> string \<Rightarrow> reminders \<Rightarrow>
   effect list \<times> reminders \<times> completion" where
  "evalReminders fails tz now owner uid [] = ([], [], Returned)"
| "evalReminders fails tz now owner uid ((rid, None) # rest) = ([], (rid, None) # rest, Threw)"
| "evalReminders fails tz now owner uid ((rid, Some r) # rest) =
     (case evalReminder fails tz now owner uid rid r of
        (log, r', c) \<Rightarrow>
          (case c of
             Threw \<Rightarrow> (log, (rid, Some r') # rest, Threw)
           | Returned \<Rightarrow>
               (case evalReminders fails tz now owner uid rest of
                  (log2, rest', c2) \<Rightarrow> (log @ log2, (rid, Some r') # rest', c2))))"

text \<open>
  The body of the loop over identities: read the link, skip an identity without one.
  \<open>links\<close> is the table \<open>line_links\<close>, keyed by the sanitized identity.
\<close>

record linkRecord =
  lineUserId :: string
  linkedAt :: int

definition processIdentity ::
  "(dbop \<Rightarrow> bool) \<Rightarrow> (string \<rightharpoonup> linkRecord) \<Rightarrow> int \<Rightarrow> int \<Rightarrow> string \<Rightarrow> reminders \<Rightarrow>
   effect list \<times> reminders \<times> completion" where
  "processIdentity fails links tz now owner rs =
     (if fails (GetLink owner) then ([], rs, Threw)
      else (case links owner of
              None \<Rightarrow> ([], rs, Returned)
            | Some link \<Rightarrow> evalReminders fails tz now owner (lineUserId link) rs))"

text \<open>
  The loop over identities.  Variant 1 catches what one identity throws, logs it and
  goes on; variant 2 has no handler, so the exception ends the tick.
\<close>

fun evalIdentities ::
  "variant \<Rightarrow> (dbop \<Rightarrow> bool) \<Rightarrow> (string \<rightharpoonup> linkRecord) \<Rightarrow> int \<Rightarrow> int \<Rightarrow> store \<Rightarrow>
   effect list \<times> store \<times> completion" where
  "evalIdentities v fails links tz now [] = ([], [], Returned)"
| "evalIdentities v fails links tz now ((owner, rs) # rest) =
     (case processIdentity fails links tz now owner rs of
        (log, rs', c) \<Rightarrow>
          if c = Threw \<and> v = V2 then (log, (owner, rs') # rest, Threw)
          else
            (case evalIdentities v fails links tz now rest of
               (log2, rest', c2) \<Rightarrow>
                 ((if c = Threw then log @ [ConsoleError owner] else log) @ log2,
                  (owner, rs') # rest', c2)))"

text \<open>
  The tick at the instant \<open>t\<close> on a host at offset \<open>tz\<close>, from the computation of
  \<open>now\<close> on: the log of effects, the reminders as the store holds them afterwards, and
  how the callback ended.
\<close>

definition tick ::
  "variant \<Rightarrow> (dbop \<Rightarrow> bool) \<Rightarrow> (string \<rightharpoonup> linkRecord) \<Rightarrow> int \<Rightarrow> int \<Rightarrow> store \<Rightarrow>
   effect list \<times> store \<times> completion" where
  "tick v fails links tz t db =
     (if fails GetReminders then ([], db, Threw)
      else evalIdentities v fails links tz (computeNow tz t) db)"

text \<open>Ticks one after the other, each reading what the one before left in the store.\<close>

fun ticks ::
  "variant \<Rightarrow> (dbop \<Rightarrow> bool) \<Rightarrow> (string \<rightharpoonup> linkRecord) \<Rightarrow> int \<Rightarrow> int list \<Rightarrow> store \<Rightarrow>
   effect list \<times> store" where
  "ticks v fails links tz [] db = ([], db)"
| "ticks v fails links tz (t # ts) db =
     (case tick v fails links tz t db of
        (log, db', c) \<Rightarrow>
          (case ticks v fails links tz ts db' of (log2, db'') \<Rightarrow> (log @ log2, db'')))"

text \<open>How many times the notification of kind \<open>k\<close> of one reminder was sent.\<close>

fun isSend :: "string \<Rightarrow> string \<Rightarrow> kind \<Rightarrow> effect \<Rightarrow> bool" where
  "isSend owner rid k (SendLine owner' rid' k' uid txt) = (owner' = owner \<and> rid' = rid \<and> k' = k)"
| "isSend owner rid k (ConsoleError owner') = False"

definition sentCount :: "string \<Rightarrow> string \<Rightarrow> kind \<Rightarrow> effect list \<Rightarrow> nat" where
  "sentCount owner rid k log = length (filter (isSend owner rid k) log)"

subsection \<open>The messaging gateway\<close>

text \<open>
  How the \<open>fetch\<close> of a gateway call ends: the promise rejects (\<open>NetworkError\<close>), or a
  response arrives with its \<open>ok\<close> flag, or a response that is not \<open>ok\<close> arrives and
  reading its body rejects (\<open>BrokenBody\<close>).  A credential read from the environment is
  absent (\<open>None\<close>) or a string; JavaScript takes the empty string for false as well.
\<close>

datatype fetchResult = NetworkError | Response bool | BrokenBody

datatype endpoint = PushAPI | ReplyAPI

datatype 'a gatewayEffect = Post endpoint string 'a | ErrorLog

definition configured :: "string option \<Rightarrow> bool" where
  "configured cred = (case cred of None \<Rightarrow> False | Some s \<Rightarrow> s \<noteq> [])"

definition sendLine ::
  "variant \<Rightarrow> string option \<Rightarrow> fetchResult \<Rightarrow> string \<Rightarrow> 'a \<Rightarrow> 'a gatewayEffect list \<times> completion" where
  "sendLine v token res uid txt =
     (if v = V2 \<and> \<not> configured token then ([], Returned)
      else (case res of
              NetworkError \<Rightarrow> ([Post PushAPI uid txt, ErrorLog], Returned)
            | Response ok \<Rightarrow>
                if ok then ([Post PushAPI uid txt], Returned)
                else ([Post PushAPI uid txt, ErrorLog], Returned)
            | BrokenBody \<Rightarrow> ([Post PushAPI uid txt, ErrorLog], Returned)))"

definition reply ::
  "variant \<Rightarrow> string option \<Rightarrow> fetchResult \<Rightarrow> string \<Rightarrow> 'a \<Rightarrow> 'a gatewayEffect list \<times> completion" where
  "reply v token res replyTo txt =
     (if v = V2 \<and> \<not> configured token then ([], Returned)
      else (case res of
              NetworkError \<Rightarrow> ([Post ReplyAPI replyTo txt], Threw)
            | Response ok \<Rightarrow> ([Post ReplyAPI replyTo txt], Returned)
            | BrokenBody \<Rightarrow> ([Post ReplyAPI replyTo txt], Returned)))"

subsection \<open>The signature check\<close>

text \<open>
  \<open>hmac key body\<close> stands for
  \<open>crypto.createHmac("sha256", key).update(body).digest("base64")\<close>, a function of
  Node's library.  \<open>createHmac\<close> throws a TypeError for a key that is \<open>undefined\<close>, and
  \<open>update\<close> for a body that is (the JSON parser sets \<open>req.rawBody\<close> only when it
  reads a body).  The header is absent or a string.
\<close>

datatype jsError = TypeError

definition verifySignature ::
  "variant \<Rightarrow> (string \<Rightarrow> string \<Rightarrow> string) \<Rightarrow> string option \<Rightarrow> string option \<Rightarrow> string option \<Rightarrow>
   jsError + bool" where
  "verifySignature v hmac secret rawBody signature =
     (if v = V2 \<and> \<not> configured secret then Inr False
      else (case secret of
              None \<Rightarrow> Inl TypeError
            | Some key \<Rightarrow>
                (case rawBody of
                   None \<Rightarrow> Inl TypeError
                 | Some body \<Rightarrow> Inr (Some (hmac key body) = signature))))"

subsection \<open>Pending links and the webhook\<close>

record pendingLink =
  email :: string
  expires :: int

record server =
  pendingLinks :: "string \<rightharpoonup> pendingLink"
  lineLinks :: "string \<rightharpoonup> linkRecord"

datatype response = Status nat | JsonCode string | NoResponse

text \<open>
  \<open>POST /api/request-line-token\<close>.  \<open>code\<close> is the value of
  \<open>Math.floor(100000 + Math.random() * 900000).toString()\<close>, \<open>now\<close> that of
  \<open>Date.now()\<close>; a missing or empty email is answered 400.
\<close>

definition requestLineToken :: "string option \<Rightarrow> string \<Rightarrow> int \<Rightarrow> server \<Rightarrow> server \<times> response" where
  "requestLineToken mail code now srv =
     (case mail of
        None \<Rightarrow> (srv, Status 400)
      | Some e \<Rightarrow>
          if e = [] then (srv, Status 400)
          else (srv\<lparr>pendingLinks := (pendingLinks srv)(code \<mapsto> \<lparr>email = e, expires = now + 5 * 60 * 1000\<rparr>)\<rparr>,
                JsonCode code))"

text \<open>Texts are ASCII strings; the string functions are JavaScript's on such strings.\<close>

definition isSpace :: "char \<Rightarrow> bool" where
  "isSpace c = (c \<in> set [CHR '' '', CHR 0x09, CHR 0x0A, CHR 0x0B, CHR 0x0C, CHR 0x0D])"

definition trim :: "string \<Rightarrow> string" where
  "trim s = rev (dropWhile isSpace (rev (dropWhile isSpace s)))"

definition upperChar :: "char \<Rightarrow> char" where
  "upperChar c =
     (if (97::nat) \<le> of_char c \<and> of_char c \<le> (122::nat) then char_of (of_char c - (32::nat)) else c)"

definition toUpperCase :: "string \<Rightarrow> string" where
  "toUpperCase s = map upperChar s"

definition startsWith :: "string \<Rightarrow> string \<Rightarrow> bool" where
  "startsWith s p = (take (length p) s = p)"

text \<open>\<open>text.replace(/LINK /i, "")\<close>: the first match, whatever its case, is cut out.\<close>

fun replaceLINK :: "string \<Rightarrow> string" where
  "replaceLINK [] = []"
| "replaceLINK (c # cs) =
     (if toUpperCase (take 5 (c # cs)) = ''LINK '' then drop 5 (c # cs) else c # replaceLINK cs)"

text \<open>\<open>record.email.replace(/\./g, "_")\<close>.\<close>

definition safeEmail :: "string \<Rightarrow> string" where
  "safeEmail e = map (\<lambda>c. if c = CHR ''.'' then CHR ''_'' else c) e"

text \<open>
  The first event of the body, as far as the handler reads it.  \<open>emessage\<close> is \<open>None\<close>
  for an event without a \<open>message\<close> object.
\<close>

record message =
  mtype :: string
  mtext :: string

record event =
  etype :: string
  emessage :: "message option"
  userId :: string
  replyToken :: string

record request =
  signature :: "string option"
  rawBody :: "string option"
  firstEvent :: "event option"

datatype replyText = LinkDone string | LinkInvalid

text \<open>
  \<open>POST /line/webhook\<close>, the same in both variants but for the functions it calls.
  \<open>dbFails\<close> says that the write of the link record rejects, \<open>res\<close> is how the fetch
  of \<open>reply\<close> ends, \<open>now\<close> and \<open>stamp\<close> are the two readings of \<open>Date.now()\<close>.  An
  exception leaves the handler without a response (\<open>NoResponse\<close>).
\<close>

definition finish ::
  "server \<Rightarrow> replyText gatewayEffect list \<times> completion \<Rightarrow>
   server \<times> replyText gatewayEffect list \<times> response" where
  "finish srv r =
     (case r of (fx, c) \<Rightarrow> (srv, fx, (case c of Returned \<Rightarrow> Status 200 | Threw \<Rightarrow> NoResponse)))"

definition handleText ::
  "variant \<Rightarrow> string option \<Rightarrow> bool \<Rightarrow> fetchResult \<Rightarrow> int \<Rightarrow> int \<Rightarrow> server \<Rightarrow> event \<Rightarrow> message \<Rightarrow>
   server \<times> replyText gatewayEffect list \<times> response" where
  "handleText v token dbFails res now stamp srv ev msg =
     (let txt = trim (mtext msg) in
      if startsWith (toUpperCase txt) ''LINK '' then
        (let code = trim (replaceLINK txt) in
         case pendingLinks srv code of
           None \<Rightarrow> finish srv (reply v token res (replyToken ev) LinkInvalid)
         | Some pl \<Rightarrow>
             if now < expires pl then
               (if dbFails then (srv, [], NoResponse)
                else
                  finish
                    (srv\<lparr>lineLinks := (lineLinks srv)(safeEmail (email pl) \<mapsto>
                                        \<lparr>lineUserId = userId ev, linkedAt = stamp\<rparr>),
                         pendingLinks := (pendingLinks srv)(code := None)\<rparr>)
                    (reply v token res (replyToken ev) (LinkDone (email pl))))
             else finish srv (reply v token res (replyToken ev) LinkInvalid))
      else (srv, [], Status 200))"

definition webhook ::
  "variant \<Rightarrow> (string \<Rightarrow> string \<Rightarrow> string) \<Rightarrow> string option \<Rightarrow> string option \<Rightarrow> bool \<Rightarrow> fetchResult \<Rightarrow>
   int \<Rightarrow> int \<Rightarrow> server \<Rightarrow> request \<Rightarrow> server \<times> replyText gatewayEffect list \<times> response" where
  "webhook v hmac secret token dbFails res now stamp srv req =
     (case verifySignature v hmac secret (rawBody req) (signature req) of
        Inl err \<Rightarrow> (srv, [], NoResponse)
      | Inr valid \<Rightarrow>
          if valid then
            (case firstEvent req of
               None \<Rightarrow> (srv, [], Status 200)
             | Some ev \<Rightarrow>
                 if etype ev \<noteq> ''message'' then (srv, [], Status 200)
                 else
                   (case emessage ev of
                      None \<Rightarrow> (srv, [], NoResponse)
                    | Some msg \<Rightarrow>
                        if mtype msg \<noteq> ''text'' then (srv, [], Status 200)
                        else handleText v token dbFails res now stamp srv ev msg))
          else (srv, [], Status 401))"

text \<open>
  The registry operation \<open>redeem\<close> in the specification's words, to compare the webhook
  with: the email and the entry removed when the entry exists and \<open>now < expiresAt\<close>,
  \<open>NotFound\<close> and the registry as it was otherwise.
\<close>

datatype redeemResult = Email string | NotFound

definition redeem_spec ::
  "(string \<rightharpoonup> pendingLink) \<Rightarrow> string \<Rightarrow> int \<Rightarrow> redeemResult \<times> (string \<rightharpoonup> pendingLink)" where
  "redeem_spec reg code now =
     (case reg code of
        None \<Rightarrow> (NotFound, reg)
      | Some p \<Rightarrow> if now < expires p then (Email (email p), reg(code := None)) else (NotFound, reg))"

subsection \<open>Predicates of the statements\<close>

text \<open>The reminder stored under an identity and an id, if there is one.\<close>

definition getReminder :: "store \<Rightarrow> string \<Rightarrow> string \<Rightarrow> reminder option" where
  "getReminder db owner rid =
     (case map_of db owner of
        None \<Rightarrow> None
      | Some rs \<Rightarrow> (case map_of rs rid of None \<Rightarrow> None | Some ro \<Rightarrow> ro))"

text \<open>
  A snapshot as the store gives it: an object has each key once (\<open>uniqueKeys\<close>), and
  no record of a well-formed one is \<open>null\<close>.
\<close>

definition uniqueKeys :: "store \<Rightarrow> bool" where
  "uniqueKeys db = (distinct (map fst db) \<and> list_all (\<lambda>(owner, rs). distinct (map fst rs)) db)"

definition wellFormed :: "store \<Rightarrow> bool" where
  "wellFormed db =
     (uniqueKeys db \<and> list_all (\<lambda>(owner, rs). list_all (\<lambda>(rid, ro). ro \<noteq> None) rs) db)"

text \<open>The flag of kind \<open>k\<close> of a stored reminder is set.\<close>

definition flagIn :: "reminders \<Rightarrow> string \<Rightarrow> kind \<Rightarrow> bool" where
  "flagIn rs rid k = (case map_of rs rid of Some (Some r) \<Rightarrow> sent k r | _ \<Rightarrow> False)"

definition flagSet :: "store \<Rightarrow> string \<Rightarrow> string \<Rightarrow> kind \<Rightarrow> bool" where
  "flagSet db owner rid k = (case map_of db owner of None \<Rightarrow> False | Some rs \<Rightarrow> flagIn rs rid k)"

text \<open>A reminder that differs from another at most in flags that went from false to true.\<close>

definition onlyRaised :: "reminder \<Rightarrow> reminder \<Rightarrow> bool" where
  "onlyRaised r r' =
     (rtext r' = rtext r \<and> timeISO r' = timeISO r \<and> morning r' = morning r \<and>
      oneHour r' = oneHour r \<and>
      (morningSent r \<longrightarrow> morningSent r') \<and>
      (oneHourSent r \<longrightarrow> oneHourSent r') \<and>
      (exactSent r \<longrightarrow> exactSent r'))"

text \<open>The same identities and ids in the same order, each reminder with flags only raised.\<close>

definition sameEntries :: "reminders \<Rightarrow> reminders \<Rightarrow> bool" where
  "sameEntries rs rs' =
     list_all2 (\<lambda>(rid, ro) (rid', ro'). rid' = rid \<and> rel_option onlyRaised ro ro') rs rs'"

definition sameButRaised :: "store \<Rightarrow> store \<Rightarrow> bool" where
  "sameButRaised db db' =
     list_all2 (\<lambda>(owner, rs) (owner', rs'). owner' = owner \<and> sameEntries rs rs') db db'"

text \<open>
  The requests to the push endpoint that the \<open>sendLine\<close> calls of a log make, \<open>resOf\<close>
  saying how the fetch of each call ends.
\<close>

fun isPost :: "'a gatewayEffect \<Rightarrow> bool" where
  "isPost (Post ep uid txt) = True"
| "isPost ErrorLog = False"

fun requestsOf ::
  "variant \<Rightarrow> string option \<Rightarrow> (effect \<Rightarrow> fetchResult) \<Rightarrow> effect \<Rightarrow> (kind \<times> string) gatewayEffect list" where
  "requestsOf v token resOf (SendLine owner rid k uid txt) =
     fst (sendLine v token (resOf (SendLine owner rid k uid txt)) uid (k, txt))"
| "requestsOf v token resOf (ConsoleError owner) = []"

definition pushRequests ::
  "variant \<Rightarrow> string option \<Rightarrow> (effect \<Rightarrow> fetchResult) \<Rightarrow> effect list \<Rightarrow> nat" where
  "pushRequests v token resOf log =
     length (filter isPost (concat (map (requestsOf v token resOf) log)))"

section \<open>The sweep: lemmas\<close>


lemma sentCount_Nil: "sentCount owner rid k [] = 0"
  by (simp add: sentCount_def)

lemma sentCount_append:
  "sentCount owner rid k (a @ b) = sentCount owner rid k a + sentCount owner rid k b"
  by (simp add: sentCount_def)

lemma sentCount_ConsoleError: "sentCount owner rid k (ConsoleError x # log) = sentCount owner rid k log"
  by (simp add: sentCount_def)

lemma due_unsent: "due tz now k r \<Longrightarrow> \<not> sent k r"
  by (cases k) (simp_all add: morningDue_def oneHourDue_def exactDue_def)

lemma sent_markSent: "sent k (markSent k' r) = (sent k r \<or> k = k')"
  by (cases k; cases k') simp_all

text \<open>The loop body, for any failures of the store.\<close>

lemma evalReminder_other:
  "owner \<noteq> own \<or> rid \<noteq> key \<Longrightarrow> sentCount own key k (fst (evalReminder fails tz now owner uid rid r)) = 0"
  by (auto simp: evalReminder_def fire_def sentCount_def)

lemma evalReminder_count:
  "sentCount own key k (fst (evalReminder fails tz now owner uid rid r)) \<le> 1"
  by (cases k) (auto simp: evalReminder_def fire_def sentCount_def)

lemma evalReminder_count_due:
  "sentCount own key k (fst (evalReminder fails tz now owner uid rid r)) = 1 \<Longrightarrow> due tz now k r"
  by (cases k) (auto simp: evalReminder_def fire_def sentCount_def split: if_splits)

lemma evalReminder_count_flag:
  "sentCount own key k (fst (evalReminder fails tz now own uid key r)) = 1 \<Longrightarrow> \<not> fails (SetSent own key k) \<Longrightarrow>
   sent k (fst (snd (evalReminder fails tz now own uid key r)))"
  by (cases k) (auto simp: evalReminder_def fire_def sentCount_def split: if_splits)

lemma evalReminder_keeps_flag:
  "sent k r \<Longrightarrow> sent k (fst (snd (evalReminder fails tz now owner uid rid r)))"
  by (cases k) (auto simp: evalReminder_def fire_def)

lemma evalReminder_ok:
  "\<forall>k. \<not> fails (SetSent owner rid k) \<Longrightarrow>
   snd (snd (evalReminder fails tz now owner uid rid r)) = Returned \<and>
   sentCount owner rid k (fst (evalReminder fails tz now owner uid rid r)) = (if due tz now k r then 1 else 0)"
  by (cases k) (auto simp: evalReminder_def fire_def sentCount_def)


text \<open>The loop over the reminders of one identity.\<close>

lemma flagIn_Cons:
  "flagIn ((j, ro) # rs) key k =
     (if j = key then (case ro of Some r \<Rightarrow> sent k r | None \<Rightarrow> False) else flagIn rs key k)"
  by (simp add: flagIn_def)

lemma evalReminders_absent:
  "owner \<noteq> own \<or> key \<notin> fst ` set rs \<Longrightarrow>
   sentCount own key k (fst (evalReminders fails tz now owner uid rs)) = 0"
proof (induction rs)
  case Nil
  show ?case by (simp add: sentCount_Nil)
next
  case (Cons x rs)
  obtain j ro where x: "x = (j, ro)" by (cases x)
  show ?case
  proof (cases ro)
    case None
    with x show ?thesis by (simp add: sentCount_Nil)
  next
    case (Some r)
    have hd: "sentCount own key k (fst (evalReminder fails tz now owner uid j r)) = 0"
      using Cons.prems x by (intro evalReminder_other) auto
    have tl: "sentCount own key k (fst (evalReminders fails tz now owner uid rs)) = 0"
      using Cons.prems Cons.IH by auto
    show ?thesis
      using x Some hd tl
      by (auto simp: sentCount_append split: prod.splits completion.splits)
  qed
qed

lemma evalReminders_once:
  assumes "distinct (map fst rs)" and "\<not> fails (SetSent own key k)"
  shows "sentCount own key k (fst (evalReminders fails tz now owner uid rs)) \<le> 1 \<and>
         (sentCount own key k (fst (evalReminders fails tz now owner uid rs)) = 1 \<longrightarrow>
            flagIn (fst (snd (evalReminders fails tz now owner uid rs))) key k) \<and>
         (flagIn rs key k \<longrightarrow>
            flagIn (fst (snd (evalReminders fails tz now owner uid rs))) key k \<and>
            sentCount own key k (fst (evalReminders fails tz now owner uid rs)) = 0)"
  using assms(1)
proof (induction rs)
  case Nil
  show ?case by (simp add: sentCount_Nil)
next
  case (Cons x rs)
  obtain j ro where x: "x = (j, ro)" by (cases x)
  show ?case
  proof (cases ro)
    case None
    with x show ?thesis by (simp add: sentCount_Nil)
  next
    case (Some r)
    obtain log r' c where e: "evalReminder fails tz now owner uid j r = (log, r', c)"
      by (cases "evalReminder fails tz now owner uid j r")
    obtain log2 rest' c2 where rec: "evalReminders fails tz now owner uid rs = (log2, rest', c2)"
      by (cases "evalReminders fails tz now owner uid rs")
    have IH: "sentCount own key k log2 \<le> 1 \<and>
         (sentCount own key k log2 = 1 \<longrightarrow> flagIn rest' key k) \<and>
         (flagIn rs key k \<longrightarrow> flagIn rest' key k \<and> sentCount own key k log2 = 0)"
      using Cons.IH Cons.prems rec by simp
    show ?thesis
    proof (cases "owner = own \<and> j = key")
      case True
      have le: "sentCount own key k log \<le> 1"
        using evalReminder_count [of own key k fails tz now owner uid j r] e by simp
      have flag: "sentCount own key k log = 1 \<Longrightarrow> sent k r'"
        using evalReminder_count_flag [of own key k fails tz now uid r] e True assms(2) by simp
      have keep: "sent k r' \<and> sentCount own key k log = 0" if s: "sent k r"
      proof -
        have "sentCount own key k log \<noteq> 1"
          using evalReminder_count_due [of own key k fails tz now owner uid j r]
            due_unsent [of tz now k r] s e by auto
        with le have "sentCount own key k log = 0" by arith
        then show ?thesis
          using evalReminder_keeps_flag [of k r fails tz now owner uid j] s e by simp
      qed
      have "key \<notin> fst ` set rs" using Cons.prems x True by auto
      then have rest0: "sentCount own key k log2 = 0"
        using evalReminders_absent [of owner own key rs k fails tz now uid] rec by simp
      show ?thesis
        using x Some e rec True le flag keep rest0
        by (cases c) (auto simp: flagIn_Cons sentCount_append)
    next
      case False
      then have hd0: "sentCount own key k log = 0"
        using evalReminder_other [of owner own j key k fails tz now uid r] e by auto
      show ?thesis
      proof (cases "j = key")
        case True
        with False have "owner \<noteq> own" by simp
        then have rest0: "sentCount own key k log2 = 0"
          using evalReminders_absent [of owner own key rs k fails tz now uid] rec by simp
        have keep: "sent k r \<Longrightarrow> sent k r'"
          using evalReminder_keeps_flag [of k r fails tz now owner uid j] e by simp
        show ?thesis
          using x Some e rec True hd0 rest0 keep
          by (cases c) (auto simp: flagIn_Cons sentCount_append)
      next
        case neq: False
        show ?thesis
          using x Some e rec neq hd0 IH
          by (cases c) (auto simp: flagIn_Cons sentCount_append)
      qed
    qed
  qed
qed

lemma evalReminders_keys:
  "map fst (fst (snd (evalReminders fails tz now owner uid rs))) = map fst rs"
  by (induction rs rule: evalReminders.induct [of _ fails tz now owner uid])
     (auto split: prod.splits completion.splits)


text \<open>One identity, and the loop over identities.\<close>

lemma processIdentity_absent:
  "owner \<noteq> own \<or> key \<notin> fst ` set rs \<Longrightarrow>
   sentCount own key k (fst (processIdentity fails links tz now owner rs)) = 0"
  by (simp add: processIdentity_def sentCount_Nil evalReminders_absent split: option.splits)

lemma processIdentity_keys:
  "map fst (fst (snd (processIdentity fails links tz now owner rs))) = map fst rs"
  by (simp add: processIdentity_def evalReminders_keys split: option.splits)

lemma processIdentity_once:
  assumes "distinct (map fst rs)" and "\<not> fails (SetSent own key k)"
  shows "sentCount own key k (fst (processIdentity fails links tz now owner rs)) \<le> 1 \<and>
         (sentCount own key k (fst (processIdentity fails links tz now owner rs)) = 1 \<longrightarrow>
            flagIn (fst (snd (processIdentity fails links tz now owner rs))) key k) \<and>
         (flagIn rs key k \<longrightarrow>
            flagIn (fst (snd (processIdentity fails links tz now owner rs))) key k \<and>
            sentCount own key k (fst (processIdentity fails links tz now owner rs)) = 0)"
proof (cases "fails (GetLink owner) \<or> links owner = None")
  case True
  then show ?thesis by (auto simp: processIdentity_def sentCount_Nil)
next
  case False
  then obtain link where "links owner = Some link" "\<not> fails (GetLink owner)" by auto
  then have "processIdentity fails links tz now owner rs =
             evalReminders fails tz now owner (lineUserId link) rs"
    by (simp add: processIdentity_def)
  then show ?thesis
    using assms evalReminders_once [where rs=rs and fails=fails and own=own and key=key and k=k
        and tz=tz and now=now and owner=owner and uid="lineUserId link"] by simp
qed

lemma flagSet_Cons:
  "flagSet ((owner, rs) # db) own key k = (if owner = own then flagIn rs key k else flagSet db own key k)"
  by (simp add: flagSet_def)

lemma evalIdentities_absent:
  "own \<notin> fst ` set db \<Longrightarrow> sentCount own key k (fst (evalIdentities v fails links tz now db)) = 0"
proof (induction db)
  case Nil
  show ?case by (simp add: sentCount_Nil)
next
  case (Cons x db)
  obtain owner rs where x: "x = (owner, rs)" by (cases x)
  with Cons.prems have "owner \<noteq> own" by auto
  then have hd: "sentCount own key k (fst (processIdentity fails links tz now owner rs)) = 0"
    by (simp add: processIdentity_absent)
  have tl: "sentCount own key k (fst (evalIdentities v fails links tz now db)) = 0"
    using Cons by simp
  show ?case
    using x hd tl
    by (auto simp: sentCount_append sentCount_ConsoleError sentCount_Nil split: prod.splits)
qed

lemma evalIdentities_keys:
  "uniqueKeys db \<Longrightarrow> uniqueKeys (fst (snd (evalIdentities v fails links tz now db)))"
proof -
  have fst_eq: "map fst (fst (snd (evalIdentities v fails links tz now db))) = map fst db" for db
    by (induction db) (auto split: prod.splits)
  have inner: "list_all (\<lambda>(owner, rs). distinct (map fst rs)) db \<Longrightarrow>
     list_all (\<lambda>(owner, rs). distinct (map fst rs)) (fst (snd (evalIdentities v fails links tz now db)))" for db
  proof (induction db)
    case Nil
    show ?case by simp
  next
    case (Cons x db)
    obtain owner rs where x: "x = (owner, rs)" by (cases x)
    have "distinct (map fst (fst (snd (processIdentity fails links tz now owner rs))))"
      using Cons.prems x by (simp add: processIdentity_keys)
    then show ?case
      using Cons x by (auto split: prod.splits)
  qed
  assume "uniqueKeys db"
  then show ?thesis
    using fst_eq [of db] inner [of db] by (simp add: uniqueKeys_def)
qed

lemma evalIdentities_once:
  assumes "uniqueKeys db" and "\<not> fails (SetSent own key k)"
  shows "sentCount own key k (fst (evalIdentities v fails links tz now db)) \<le> 1 \<and>
         (sentCount own key k (fst (evalIdentities v fails links tz now db)) = 1 \<longrightarrow>
            flagSet (fst (snd (evalIdentities v fails links tz now db))) own key k) \<and>
         (flagSet db own key k \<longrightarrow>
            flagSet (fst (snd (evalIdentities v fails links tz now db))) own key k \<and>
            sentCount own key k (fst (evalIdentities v fails links tz now db)) = 0)"
  using assms(1)
proof (induction db)
  case Nil
  show ?case by (simp add: sentCount_Nil flagSet_def)
next
  case (Cons x db)
  obtain owner rs where x: "x = (owner, rs)" by (cases x)
  obtain log rs' c where p: "processIdentity fails links tz now owner rs = (log, rs', c)"
    by (cases "processIdentity fails links tz now owner rs")
  obtain log2 rest' c2 where rec: "evalIdentities v fails links tz now db = (log2, rest', c2)"
    by (cases "evalIdentities v fails links tz now db")
  have uk: "uniqueKeys db" "distinct (map fst rs)" "owner \<notin> fst ` set db"
    using Cons.prems x by (auto simp: uniqueKeys_def)
  have IH: "sentCount own key k log2 \<le> 1 \<and>
         (sentCount own key k log2 = 1 \<longrightarrow> flagSet rest' own key k) \<and>
         (flagSet db own key k \<longrightarrow> flagSet rest' own key k \<and> sentCount own key k log2 = 0)"
    using Cons.IH uk(1) rec by simp
  show ?case
  proof (cases "owner = own")
    case True
    have hd: "sentCount own key k log \<le> 1 \<and>
         (sentCount own key k log = 1 \<longrightarrow> flagIn rs' key k) \<and>
         (flagIn rs key k \<longrightarrow> flagIn rs' key k \<and> sentCount own key k log = 0)"
      using uk(2) assms(2) p processIdentity_once [where rs=rs and fails=fails and own=own and key=key
          and k=k and links=links and tz=tz and now=now and owner=owner] by simp
    have rest0: "sentCount own key k log2 = 0"
      using evalIdentities_absent [of own db key k v fails links tz now] uk(3) True rec by simp
    show ?thesis
      using x p rec True hd rest0
      by (auto simp: flagSet_Cons sentCount_append sentCount_ConsoleError sentCount_Nil)
  next
    case False
    then have hd0: "sentCount own key k log = 0"
      using processIdentity_absent [of owner own key rs k fails links tz now] p by simp
    show ?thesis
      using x p rec False hd0 IH
      by (auto simp: flagSet_Cons sentCount_append sentCount_ConsoleError sentCount_Nil)
  qed
qed

lemma tick_once:
  assumes "uniqueKeys db" and "\<not> fails (SetSent own key k)"
  shows "uniqueKeys (fst (snd (tick v fails links tz t db))) \<and>
         sentCount own key k (fst (tick v fails links tz t db)) \<le> 1 \<and>
         (sentCount own key k (fst (tick v fails links tz t db)) = 1 \<longrightarrow>
            flagSet (fst (snd (tick v fails links tz t db))) own key k) \<and>
         (flagSet db own key k \<longrightarrow>
            flagSet (fst (snd (tick v fails links tz t db))) own key k \<and>
            sentCount own key k (fst (tick v fails links tz t db)) = 0)"
  using assms
    evalIdentities_once [where db=db and fails=fails and own=own and key=key and k=k and v=v
      and links=links and tz=tz and now="computeNow tz t"]
    evalIdentities_keys [where db=db and fails=fails and v=v and links=links and tz=tz
      and now="computeNow tz t"]
  by (simp add: tick_def sentCount_Nil)

lemma ticks_once:
  assumes "\<not> fails (SetSent own key k)"
  shows "uniqueKeys db \<Longrightarrow>
         sentCount own key k (fst (ticks v fails links tz ts db)) \<le> 1 \<and>
         (flagSet db own key k \<longrightarrow> sentCount own key k (fst (ticks v fails links tz ts db)) = 0)"
proof (induction ts arbitrary: db)
  case Nil
  show ?case by (simp add: sentCount_Nil)
next
  case (Cons t ts)
  obtain log db' c where tk: "tick v fails links tz t db = (log, db', c)"
    by (cases "tick v fails links tz t db")
  obtain log2 db'' where rec: "ticks v fails links tz ts db' = (log2, db'')"
    by (cases "ticks v fails links tz ts db'")
  have one: "uniqueKeys db'" "sentCount own key k log \<le> 1"
    "sentCount own key k log = 1 \<longrightarrow> flagSet db' own key k"
    "flagSet db own key k \<longrightarrow> flagSet db' own key k \<and> sentCount own key k log = 0"
    using Cons.prems assms tk
      tick_once [where db=db and fails=fails and own=own and key=key and k=k and v=v
        and links=links and tz=tz and t=t] by simp_all
  have IH: "sentCount own key k log2 \<le> 1"
    "flagSet db' own key k \<longrightarrow> sentCount own key k log2 = 0"
    using Cons.IH [OF one(1)] rec by simp_all
  show ?case
    using tk rec one IH by (auto simp: sentCount_append)
qed



text \<open>A tick only raises flags.\<close>

lemma onlyRaised_refl: "onlyRaised r r"
  by (simp add: onlyRaised_def)

lemma onlyRaised_trans: "onlyRaised a b \<Longrightarrow> onlyRaised b c \<Longrightarrow> onlyRaised a c"
  by (simp add: onlyRaised_def)

lemma onlyRaised_markSent: "onlyRaised a b \<Longrightarrow> onlyRaised a (markSent k b)"
  by (cases k) (simp_all add: onlyRaised_def)

lemma fire_onlyRaised:
  "onlyRaised a (fst (snd st)) \<Longrightarrow> onlyRaised a (fst (snd (fire fails owner uid rid r0 k d st)))"
  by (cases st) (simp add: fire_def onlyRaised_markSent)

lemma evalReminder_onlyRaised:
  "onlyRaised r (fst (snd (evalReminder fails tz now owner uid rid r)))"
  unfolding evalReminder_def
  by (intro fire_onlyRaised) (simp add: onlyRaised_refl)

lemma sameEntries_refl: "sameEntries rs rs"
  unfolding sameEntries_def
  by (rule list_all2_refl) (auto simp: option.rel_refl onlyRaised_refl)

lemma sameEntries_trans: "sameEntries a b \<Longrightarrow> sameEntries b c \<Longrightarrow> sameEntries a c"
proof -
  have step: "\<And>x y z. (case x of (rid, ro) \<Rightarrow> \<lambda>(rid', ro'). rid' = rid \<and> rel_option onlyRaised ro ro') y \<Longrightarrow>
        (case y of (rid, ro) \<Rightarrow> \<lambda>(rid', ro'). rid' = rid \<and> rel_option onlyRaised ro ro') z \<Longrightarrow>
        (case x of (rid, ro) \<Rightarrow> \<lambda>(rid', ro'). rid' = rid \<and> rel_option onlyRaised ro ro') z"
    by (auto simp: option.rel_sel intro: onlyRaised_trans)
  assume "sameEntries a b" "sameEntries b c"
  then show ?thesis
    unfolding sameEntries_def using step by (rule list_all2_trans [rotated])
qed

lemma evalReminders_raised:
  "sameEntries rs (fst (snd (evalReminders fails tz now owner uid rs)))"
proof (induction rs)
  case Nil
  show ?case by (simp add: sameEntries_def)
next
  case (Cons x rs)
  obtain rid ro where x: "x = (rid, ro)" by (cases x)
  show ?case
  proof (cases ro)
    case None
    with x show ?thesis using sameEntries_refl [of "x # rs"] by simp
  next
    case (Some r)
    obtain log r' c where e: "evalReminder fails tz now owner uid rid r = (log, r', c)"
      by (cases "evalReminder fails tz now owner uid rid r")
    have r': "onlyRaised r r'"
      using evalReminder_onlyRaised [of r fails tz now owner uid rid] e by simp
    show ?thesis
    proof (cases c)
      case Threw
      with x Some e r' show ?thesis
        using sameEntries_refl [of rs] by (simp add: sameEntries_def)
    next
      case Returned
      obtain log2 rest' c2 where rec: "evalReminders fails tz now owner uid rs = (log2, rest', c2)"
        by (cases "evalReminders fails tz now owner uid rs")
      with Cons.IH have "sameEntries rs rest'" by simp
      with x Some e r' Returned rec show ?thesis
        by (simp add: sameEntries_def)
    qed
  qed
qed

lemma processIdentity_raised:
  "sameEntries rs (fst (snd (processIdentity fails links tz now owner rs)))"
  by (simp add: processIdentity_def sameEntries_refl evalReminders_raised split: option.splits)

lemma sameButRaised_refl: "sameButRaised db db"
  unfolding sameButRaised_def
  by (rule list_all2_refl) (auto simp: sameEntries_refl)

lemma evalIdentities_raised:
  "sameButRaised db (fst (snd (evalIdentities v fails links tz now db)))"
proof (induction db)
  case Nil
  show ?case by (simp add: sameButRaised_def)
next
  case (Cons x db)
  obtain owner rs where x: "x = (owner, rs)" by (cases x)
  obtain log rs' c where p: "processIdentity fails links tz now owner rs = (log, rs', c)"
    by (cases "processIdentity fails links tz now owner rs")
  obtain log2 rest' c2 where rec: "evalIdentities v fails links tz now db = (log2, rest', c2)"
    by (cases "evalIdentities v fails links tz now db")
  have rs': "sameEntries rs rs'"
    using processIdentity_raised [of rs fails links tz now owner] p by simp
  have rest: "sameButRaised db rest'"
    using Cons.IH rec by simp
  show ?case
  proof (cases "c = Threw \<and> v = V2")
    case True
    with x p rs' show ?thesis
      using sameButRaised_refl [of db] by (simp add: sameButRaised_def)
  next
    case False
    with x p rec rs' rest show ?thesis
      by (auto simp: sameButRaised_def)
  qed
qed

lemma tick_raised: "sameButRaised db (fst (snd (tick v fails links tz t db)))"
  by (simp add: tick_def sameButRaised_refl evalIdentities_raised)

text \<open>When no operation of the store fails and no record is null, a due trigger is reached.\<close>

lemma evalReminders_reached:
  assumes "\<forall>op. \<not> fails op" and "list_all (\<lambda>(rid, ro). ro \<noteq> None) rs"
  shows "snd (snd (evalReminders fails tz now owner uid rs)) = Returned \<and>
         ((rid, Some r) \<in> set rs \<and> due tz now k r \<longrightarrow>
            1 \<le> sentCount owner rid k (fst (evalReminders fails tz now owner uid rs)))"
  using assms(2)
proof (induction rs)
  case Nil
  show ?case by simp
next
  case (Cons x rs)
  obtain j ro where x: "x = (j, ro)" by (cases x)
  with Cons.prems obtain r0 where ro: "ro = Some r0" by auto
  obtain log r' c where e: "evalReminder fails tz now owner uid j r0 = (log, r', c)"
    by (cases "evalReminder fails tz now owner uid j r0")
  obtain log2 rest' c2 where rec: "evalReminders fails tz now owner uid rs = (log2, rest', c2)"
    by (cases "evalReminders fails tz now owner uid rs")
  have hd: "c = Returned" "sentCount owner j k log = (if due tz now k r0 then 1 else 0)"
    using evalReminder_ok [where fails=fails and owner=owner and rid=j and tz=tz and now=now
        and uid=uid and r=r0 and k=k] assms(1) e by simp_all
  have IH: "c2 = Returned"
    "(rid, Some r) \<in> set rs \<and> due tz now k r \<longrightarrow> 1 \<le> sentCount owner rid k log2"
    using Cons.IH Cons.prems x rec by simp_all
  show ?case
    using x ro e rec hd IH by (auto simp: sentCount_append)
qed

lemma evalIdentities_reached:
  assumes "\<forall>op. \<not> fails op"
    and "list_all (\<lambda>(owner, rs). list_all (\<lambda>(rid, ro). ro \<noteq> None) rs) db"
  shows "snd (snd (evalIdentities v fails links tz now db)) = Returned \<and>
         ((owner, rs) \<in> set db \<and> links owner = Some link \<and> (rid, Some r) \<in> set rs \<and> due tz now k r \<longrightarrow>
            1 \<le> sentCount owner rid k (fst (evalIdentities v fails links tz now db)))"
  using assms(2)
proof (induction db)
  case Nil
  show ?case by simp
next
  case (Cons x db)
  obtain owner' rs' where x: "x = (owner', rs')" by (cases x)
  obtain log rs'' c where p: "processIdentity fails links tz now owner' rs' = (log, rs'', c)"
    by (cases "processIdentity fails links tz now owner' rs'")
  obtain log2 rest' c2 where rec: "evalIdentities v fails links tz now db = (log2, rest', c2)"
    by (cases "evalIdentities v fails links tz now db")
  have nn: "list_all (\<lambda>(rid, ro). ro \<noteq> None) rs'"
    using Cons.prems x by simp
  have ret: "snd (snd (evalReminders fails tz now owner' uid rs')) = Returned" for uid
    using evalReminders_reached [where fails=fails and rs=rs' and tz=tz and now=now
        and owner=owner' and uid=uid] assms(1) nn by simp
  have hd: "c = Returned"
  proof (cases "links owner'")
    case None
    with p assms(1) show ?thesis by (simp add: processIdentity_def)
  next
    case (Some l)
    with p assms(1) ret [of "lineUserId l"] show ?thesis by (simp add: processIdentity_def)
  qed
  have hit: "1 \<le> sentCount owner rid k log"
    if "owner' = owner" "rs' = rs" "links owner = Some link" "(rid, Some r) \<in> set rs" "due tz now k r"
    using that p assms(1) nn
      evalReminders_reached [where fails=fails and rs=rs' and tz=tz and now=now and owner=owner'
        and uid="lineUserId link" and rid=rid and r=r and k=k]
    by (simp add: processIdentity_def)
  have IH: "c2 = Returned"
    "(owner, rs) \<in> set db \<and> links owner = Some link \<and> (rid, Some r) \<in> set rs \<and> due tz now k r \<longrightarrow>
       1 \<le> sentCount owner rid k log2"
    using Cons.IH Cons.prems x rec by simp_all
  show ?case
    using x p rec hd hit IH by (auto simp: sentCount_append)
qed

lemma getReminder_mem:
  "getReminder db owner rid = Some r \<Longrightarrow> \<exists>rs. (owner, rs) \<in> set db \<and> (rid, Some r) \<in> set rs"
  by (auto simp: getReminder_def split: option.splits dest: map_of_SomeD)

lemma tick_reached:
  assumes "\<forall>op. \<not> fails op" and "wellFormed db" and "links owner = Some link"
    and "getReminder db owner rid = Some r" and "due tz (computeNow tz t) k r"
  shows "1 \<le> sentCount owner rid k (fst (tick v fails links tz t db))"
proof -
  obtain rs where "(owner, rs) \<in> set db" "(rid, Some r) \<in> set rs"
    using getReminder_mem [OF assms(4)] by auto
  moreover have "list_all (\<lambda>(owner, rs). list_all (\<lambda>(rid, ro). ro \<noteq> None) rs) db"
    using assms(2) by (simp add: wellFormed_def)
  ultimately show ?thesis
    using assms(1,3,5)
      evalIdentities_reached [where fails=fails and db=db and v=v and links=links and tz=tz
        and now="computeNow tz t" and owner=owner and rs=rs and link=link and rid=rid and r=r and k=k]
    by (simp add: tick_def)
qed

lemma sameButRaised_trans: "sameButRaised a b \<Longrightarrow> sameButRaised b c \<Longrightarrow> sameButRaised a c"
proof -
  have step: "\<And>x y z. (case x of (owner, rs) \<Rightarrow> \<lambda>(owner', rs'). owner' = owner \<and> sameEntries rs rs') y \<Longrightarrow>
        (case y of (owner, rs) \<Rightarrow> \<lambda>(owner', rs'). owner' = owner \<and> sameEntries rs rs') z \<Longrightarrow>
        (case x of (owner, rs) \<Rightarrow> \<lambda>(owner', rs'). owner' = owner \<and> sameEntries rs rs') z"
    by (auto intro: sameEntries_trans)
  assume "sameButRaised a b" "sameButRaised b c"
  then show ?thesis
    unfolding sameButRaised_def using step by (rule list_all2_trans [rotated])
qed

lemma ticks_raised: "sameButRaised db (snd (ticks v fails links tz ts db))"
proof (induction ts arbitrary: db)
  case Nil
  show ?case by (simp add: sameButRaised_refl)
next
  case (Cons t ts)
  obtain log db' c where tk: "tick v fails links tz t db = (log, db', c)"
    by (cases "tick v fails links tz t db")
  have "sameButRaised db db'" using tick_raised [of db v fails links tz t] tk by simp
  moreover have "sameButRaised db' (snd (ticks v fails links tz ts db'))" by (rule Cons.IH)
  ultimately show ?case
    using tk by (auto split: prod.splits intro: sameButRaised_trans)
qed


text \<open>What is sent was due.\<close>

lemma evalReminder_sent_due:
  assumes "0 < sentCount own key k (fst (evalReminder fails tz now owner uid rid r))"
  shows "owner = own \<and> rid = key \<and> due tz now k r"
proof -
  have "owner = own \<and> rid = key"
    using assms evalReminder_other [of owner own rid key k fails tz now uid r] by auto
  moreover have "sentCount own key k (fst (evalReminder fails tz now owner uid rid r)) = 1"
    using assms evalReminder_count [of own key k fails tz now owner uid rid r] by arith
  ultimately show ?thesis
    using evalReminder_count_due [of own key k fails tz now owner uid rid r] by simp
qed

lemma evalReminders_sent_due:
  "0 < sentCount own key k (fst (evalReminders fails tz now owner uid rs)) \<Longrightarrow>
   owner = own \<and> (\<exists>r. (key, Some r) \<in> set rs \<and> due tz now k r)"
proof (induction rs)
  case Nil
  then show ?case by (simp add: sentCount_Nil)
next
  case (Cons x rs)
  obtain j ro where x: "x = (j, ro)" by (cases x)
  show ?case
  proof (cases ro)
    case None
    with x Cons.prems show ?thesis by (simp add: sentCount_Nil)
  next
    case (Some r0)
    obtain log r' c where e: "evalReminder fails tz now owner uid j r0 = (log, r', c)"
      by (cases "evalReminder fails tz now owner uid j r0")
    obtain log2 rest' c2 where rec: "evalReminders fails tz now owner uid rs = (log2, rest', c2)"
      by (cases "evalReminders fails tz now owner uid rs")
    have "0 < sentCount own key k log \<or> 0 < sentCount own key k log2"
      using Cons.prems x Some e rec by (cases c) (auto simp: sentCount_append)
    then show ?thesis
    proof
      assume "0 < sentCount own key k log"
      then have "owner = own \<and> j = key \<and> due tz now k r0"
        using evalReminder_sent_due [of own key k fails tz now owner uid j r0] e by simp
      with x Some show ?thesis by auto
    next
      assume "0 < sentCount own key k log2"
      then have "owner = own \<and> (\<exists>r. (key, Some r) \<in> set rs \<and> due tz now k r)"
        using Cons.IH rec by simp
      then show ?thesis by auto
    qed
  qed
qed

lemma processIdentity_sent_due:
  assumes "0 < sentCount own key k (fst (processIdentity fails links tz now owner rs))"
  shows "owner = own \<and> (\<exists>r. (key, Some r) \<in> set rs \<and> due tz now k r)"
proof (cases "fails (GetLink owner)")
  case True
  with assms show ?thesis by (simp add: processIdentity_def sentCount_Nil)
next
  case False
  show ?thesis
  proof (cases "links owner")
    case None
    with False assms show ?thesis by (simp add: processIdentity_def sentCount_Nil)
  next
    case (Some link)
    with False assms show ?thesis
      using evalReminders_sent_due [of own key k fails tz now owner "lineUserId link" rs]
      by (simp add: processIdentity_def)
  qed
qed

lemma evalIdentities_sent_due:
  "0 < sentCount own key k (fst (evalIdentities v fails links tz now db)) \<Longrightarrow>
   \<exists>rs r. (own, rs) \<in> set db \<and> (key, Some r) \<in> set rs \<and> due tz now k r"
proof (induction db)
  case Nil
  then show ?case by (simp add: sentCount_Nil)
next
  case (Cons x db)
  obtain owner rs where x: "x = (owner, rs)" by (cases x)
  obtain log rs' c where p: "processIdentity fails links tz now owner rs = (log, rs', c)"
    by (cases "processIdentity fails links tz now owner rs")
  obtain log2 rest' c2 where rec: "evalIdentities v fails links tz now db = (log2, rest', c2)"
    by (cases "evalIdentities v fails links tz now db")
  have "0 < sentCount own key k log \<or> 0 < sentCount own key k log2"
    using Cons.prems x p rec
    by (auto simp: sentCount_append sentCount_ConsoleError sentCount_Nil split: if_splits)
  then show ?case
  proof
    assume pos: "0 < sentCount own key k log"
    then have "owner = own \<and> (\<exists>r. (key, Some r) \<in> set rs \<and> due tz now k r)"
      using processIdentity_sent_due [of own key k fails links tz now owner rs] p by simp
    with x show ?thesis by auto
  next
    assume "0 < sentCount own key k log2"
    then have "\<exists>rs r. (own, rs) \<in> set db \<and> (key, Some r) \<in> set rs \<and> due tz now k r"
      using Cons.IH rec by simp
    then show ?thesis by auto
  qed
qed

lemma getReminder_unique:
  assumes "uniqueKeys db" and "getReminder db own key = Some r"
    and "(own, rs) \<in> set db" and "(key, Some r') \<in> set rs"
  shows "r' = r"
proof -
  have "map_of db own = Some rs"
    using assms(1,3) by (simp add: uniqueKeys_def)
  moreover have "distinct (map fst rs)"
    using assms(1,3) by (auto simp: uniqueKeys_def list_all_iff)
  then have "map_of rs key = Some (Some r')"
    using assms(4) by simp
  ultimately show ?thesis
    using assms(2) by (simp add: getReminder_def)
qed

lemma tick_count:
  assumes "\<forall>op. \<not> fails op" and "wellFormed db" and "links owner = Some link"
    and "getReminder db owner rid = Some r"
  shows "sentCount owner rid k (fst (tick v fails links tz t db)) =
           (if due tz (computeNow tz t) k r then 1 else 0)"
proof (cases "due tz (computeNow tz t) k r")
  case True
  have "1 \<le> sentCount owner rid k (fst (tick v fails links tz t db))"
    using assms True tick_reached [where fails=fails and db=db and owner=owner and link=link
        and rid=rid and r=r and k=k and tz=tz and t=t and v=v and links=links] by simp
  moreover have "sentCount owner rid k (fst (tick v fails links tz t db)) \<le> 1"
    using assms(1,2) tick_once [where db=db and fails=fails and own=owner and key=rid and k=k
        and v=v and links=links and tz=tz and t=t] by (simp add: wellFormed_def)
  ultimately show ?thesis using True by simp
next
  case False
  have "\<not> 0 < sentCount owner rid k (fst (tick v fails links tz t db))"
  proof
    assume "0 < sentCount owner rid k (fst (tick v fails links tz t db))"
    then have "0 < sentCount owner rid k (fst (evalIdentities v fails links tz (computeNow tz t) db))"
      using assms(1) by (simp add: tick_def)
    then obtain rs r' where "(owner, rs) \<in> set db" "(rid, Some r') \<in> set rs"
      "due tz (computeNow tz t) k r'"
      using evalIdentities_sent_due [of owner rid k v fails links tz "computeNow tz t" db] by auto
    moreover have "uniqueKeys db" using assms(2) by (simp add: wellFormed_def)
    ultimately show False
      using getReminder_unique [of db owner rid r rs r'] assms(4) False by simp
  qed
  with False show ?thesis by simp
qed

text \<open>Calls of \<open>sendLine\<close> and the requests they make.\<close>

lemma requestsOf_one:
  "length (filter isPost (requestsOf v token resOf (SendLine owner rid k uid txt))) =
     (if v = V2 \<and> \<not> configured token then 0 else 1)"
  by (simp add: sendLine_def split: fetchResult.splits)

lemma pushRequests_of_calls:
  "pushRequests v token resOf (filter (isSend owner rid k) log) =
     (if v = V2 \<and> \<not> configured token then 0 else sentCount owner rid k log)"
proof (induction log)
  case Nil
  show ?case by (simp add: pushRequests_def sentCount_def)
next
  case (Cons e log)
  show ?case
  proof (cases e)
    case (SendLine owner' rid' k' uid body)
    then show ?thesis
      using Cons.IH requestsOf_one [of v token resOf owner' rid' k' uid body]
      by (auto simp: pushRequests_def sentCount_def simp del: requestsOf.simps)
  next
    case (ConsoleError x)
    then show ?thesis using Cons.IH by (simp add: pushRequests_def sentCount_def)
  qed
qed

section \<open>Time zones, the signature check and the gateway: lemmas\<close>

text \<open>The value of \<open>now\<close> and the host's timezone.\<close>

lemma computeNow_shows_tokyo_time:
  "localCivil tz (computeNow tz t) = (tokyoCivil t div 1000) * 1000"
  by (simp add: localCivil_def computeNow_def)

lemma computeNow_on_tokyo_host:
  "computeNow tokyoOffset t = ((t + tokyoOffset) div 1000) * 1000 - tokyoOffset"
  by (simp add: computeNow_def tokyoCivil_def)

lemma local_time_events_same_on_every_host:
  assumes "timeISO r = LocalCivil c"
    and "\<bar>c\<bar> \<le> maxTime - 200000000"
    and "\<bar>tz\<bar> \<le> 86400000" and "\<bar>tz'\<bar> \<le> 86400000"
  shows "due tz (computeNow tz t) k r = due tz' (computeNow tz' t) k r"
proof -
  have split: "(c div 86400000) * 86400000 = c - c mod 86400000"
    by (simp add: minus_mod_eq_div_mult)
  have md: "0 \<le> c mod 86400000" "c mod 86400000 < 86400000"
    by simp_all
  have clip: "timeClip (c - z) = Some (c - z)" 
    "timeClip (c - z - 60 * 60 * 1000) = Some (c - z - 60 * 60 * 1000)"
    "timeClip ((c div 86400000) * 86400000 + 8 * 3600000 - z) =
       Some ((c div 86400000) * 86400000 + 8 * 3600000 - z)"
    if "\<bar>z\<bar> \<le> 86400000" for z
  proof -
    have b: "- 86400000 \<le> z" "z \<le> 86400000" "- (maxTime - 200000000) \<le> c"
      "c \<le> maxTime - 200000000"
      using that assms(2) by (simp_all add: abs_le_iff)
    show "timeClip (c - z) = Some (c - z)"
      using b by (simp add: timeClip_def maxTime_def)
    show "timeClip (c - z - 60 * 60 * 1000) = Some (c - z - 60 * 60 * 1000)"
      using b by (simp add: timeClip_def maxTime_def)
    have "- maxTime \<le> c - c mod 86400000 + 8 * 3600000 - z"
      "c - c mod 86400000 + 8 * 3600000 - z \<le> maxTime"
      using b md unfolding maxTime_def by linarith+
    then show "timeClip ((c div 86400000) * 86400000 + 8 * 3600000 - z) =
       Some ((c div 86400000) * 86400000 + 8 * 3600000 - z)"
      unfolding split by (simp add: timeClip_def)
  qed
  have "due z (computeNow z t) k r =
        (case k of
           Morning \<Rightarrow> morning r \<and> \<not> morningSent r \<and>
                      (c div 86400000) * 86400000 + 8 * 3600000 \<le> (tokyoCivil t div 1000) * 1000
         | OneHour \<Rightarrow> oneHour r \<and> \<not> oneHourSent r \<and>
                      c - 60 * 60 * 1000 \<le> (tokyoCivil t div 1000) * 1000
         | Exact \<Rightarrow> \<not> exactSent r \<and> 0 \<le> (tokyoCivil t div 1000) * 1000 - c \<and>
                    (tokyoCivil t div 1000) * 1000 - c < 10 * 60 * 1000)"
    if z: "\<bar>z\<bar> \<le> 86400000" for z
    using assms(1) clip [OF z]
    by (cases k)
       (auto simp: morningDue_def oneHourDue_def exactDue_def computeNow_def setHours8_def
          localCivil_def)
  then show ?thesis using assms(3,4) by simp
qed

lemma whole_seconds:
  fixes a b :: int
  assumes "1000 dvd b"
  shows "(b \<le> (a div 1000) * 1000) = (b \<le> a)"
proof -
  obtain q where b: "b = 1000 * q" using assms by (auto simp: dvd_def)
  define d where "d = a div 1000"
  define m where "m = a mod 1000"
  have a: "a = 1000 * d + m" by (simp add: d_def m_def)
  have m: "0 \<le> m" "m < 1000" by (simp_all add: m_def)
  have "(1000 * q \<le> 1000 * d + m) = (q \<le> d)"
  proof
    assume "1000 * q \<le> 1000 * d + m"
    with m have "1000 * q < 1000 * d + 1000" by simp
    then have "1000 * q < 1000 * (d + 1)" by (simp add: algebra_simps)
    then have "q < d + 1" by (simp only: mult_less_cancel_left_pos zero_less_numeral)
    then show "q \<le> d" by simp
  next
    assume "q \<le> d"
    then have "1000 * q \<le> 1000 * d" by simp
    with m show "1000 * q \<le> 1000 * d + m" by simp
  qed
  note e2 = this
  have "(b \<le> (a div 1000) * 1000) = (b \<le> d * 1000)" by (simp only: d_def)
  also have "\<dots> = (q \<le> d)" unfolding b by simp
  also have "\<dots> = (1000 * q \<le> 1000 * d + m)" by (rule e2 [symmetric])
  also have "\<dots> = (b \<le> a)" by (simp only: b [symmetric] a [symmetric])
  finally show ?thesis .
qed

lemma morning_on_tokyo_host:
  assumes "timeISO r = Instant e" and "- maxTime + 86400000 \<le> e" and "e \<le> maxTime - 86400000"
  shows "morningDue tokyoOffset (computeNow tokyoOffset t) r \<longleftrightarrow>
           morning r \<and> \<not> morningSent r \<and>
           tokyoCivil t \<ge> (tokyoCivil e div 86400000) * 86400000 + 8 * 3600000"
proof -
  have clip: "timeClip e = Some e"
    using assms(2,3) by (simp add: timeClip_def maxTime_def)
  let ?m = "(tokyoCivil e div 86400000) * 86400000 + 8 * 3600000 - tokyoOffset"
  have split: "(tokyoCivil e div 86400000) * 86400000 = tokyoCivil e - tokyoCivil e mod 86400000"
    by (simp add: minus_mod_eq_div_mult)
  have "0 \<le> tokyoCivil e mod 86400000" and "tokyoCivil e mod 86400000 < 86400000"
    by simp_all
  with split have lo: "(tokyoCivil e div 86400000) * 86400000 \<le> tokyoCivil e"
    and hi: "tokyoCivil e < (tokyoCivil e div 86400000) * 86400000 + 86400000"
    by linarith+
  have "- maxTime \<le> ?m \<and> ?m \<le> maxTime"
    using lo hi assms(2,3) by (simp add: tokyoCivil_def tokyoOffset_def maxTime_def)
  then have m: "setHours8 tokyoOffset e = Some ?m"
    by (simp add: setHours8_def localCivil_def tokyoCivil_def timeClip_def)
  have sec: "((tokyoCivil t div 1000) * 1000 \<ge> (tokyoCivil e div 86400000) * 86400000 + 8 * 3600000)
             = (tokyoCivil t \<ge> (tokyoCivil e div 86400000) * 86400000 + 8 * 3600000)"
    by (rule whole_seconds) simp
  show ?thesis
    using assms(1) clip m sec by (simp add: morningDue_def computeNow_def)
qed

text \<open>The signature check of variant 2, and the gateway.\<close>

lemma verifySignature_guarded:
  "verifySignature V2 hmac secret (Some body) sig =
     Inr (configured secret \<and> sig = Some (hmac (the secret) body))"
  by (auto simp: verifySignature_def configured_def split: option.splits)

lemma verifySignature_no_secret:
  "\<not> configured secret \<Longrightarrow> verifySignature V2 hmac secret raw sig = Inr False"
  by (simp add: verifySignature_def)

lemma sendLine_never_throws: "snd (sendLine v token res uid txt) = Returned"
  by (simp add: sendLine_def split: fetchResult.splits)

lemma unconfigured_is_noop:
  "\<not> configured token \<Longrightarrow>
   sendLine V2 token res uid txt = ([], Returned) \<and> reply V2 token res replyTo txt = ([], Returned)"
  by (simp add: sendLine_def reply_def)

lemma reply_returns_on_response:
  "res \<noteq> NetworkError \<Longrightarrow> snd (reply v token res replyTo txt) = Returned"
  by (cases res) (simp_all add: reply_def)

text \<open>Variant 1 goes on after an identity that throws.\<close>

lemma variant_1_isolates_identities:
  "snd (snd (evalIdentities V1 fails links tz now db)) = Returned \<and>
   (\<exists>pre. fst (evalIdentities V1 fails links tz now (x # db)) =
            pre @ fst (evalIdentities V1 fails links tz now db))"
proof
  show "snd (snd (evalIdentities V1 fails links tz now db)) = Returned"
    by (induction db) (auto split: prod.splits)
  show "\<exists>pre. fst (evalIdentities V1 fails links tz now (x # db)) =
            pre @ fst (evalIdentities V1 fails links tz now db)"
    by (cases x) (auto split: prod.splits)
qed

section \<open>The webhook: lemmas\<close>

lemma webhook_text:
  assumes "verifySignature v hmac secret (rawBody req) (signature req) = Inr True"
    and "firstEvent req = Some ev" and "etype ev = ''message''"
    and "emessage ev = Some msg" and "mtype msg = ''text''"
  shows "webhook v hmac secret token dbFails res now stamp srv req =
         handleText v token dbFails res now stamp srv ev msg"
  using assms by (simp add: webhook_def)

lemma handleText_link:
  assumes "startsWith (toUpperCase (trim (mtext msg))) ''LINK ''"
    and "code = trim (replaceLINK (trim (mtext msg)))"
  shows "handleText v token dbFails res now stamp srv ev msg =
     (case pendingLinks srv code of
        None \<Rightarrow> finish srv (reply v token res (replyToken ev) LinkInvalid)
      | Some pl \<Rightarrow>
          if now < expires pl then
            (if dbFails then (srv, [], NoResponse)
             else
               finish
                 (srv\<lparr>lineLinks := (lineLinks srv)(safeEmail (email pl) \<mapsto>
                                     \<lparr>lineUserId = userId ev, linkedAt = stamp\<rparr>),
                      pendingLinks := (pendingLinks srv)(code := None)\<rparr>)
                 (reply v token res (replyToken ev) (LinkDone (email pl))))
          else finish srv (reply v token res (replyToken ev) LinkInvalid))"
  using assms(1) unfolding assms(2) by (simp add: handleText_def Let_def)

lemma finish_state: "fst (finish srv r) = srv"
  by (cases r) (simp add: finish_def)

lemma example_text:
  "startsWith (toUpperCase (trim '' link 123456 '')) ''LINK '' \<and>
   trim (replaceLINK (trim '' link 123456 '')) = ''123456''"
  by code_simp

lemma handleText_cases:
  "fst (handleText v token dbFails res now stamp srv ev msg) = srv \<or>
   (\<not> dbFails \<and>
    (\<exists>code pl uid. pendingLinks srv code = Some pl \<and> now < expires pl \<and>
       fst (handleText v token dbFails res now stamp srv ev msg) =
         srv\<lparr>lineLinks := (lineLinks srv)(safeEmail (email pl) \<mapsto>
                              \<lparr>lineUserId = uid, linkedAt = stamp\<rparr>),
              pendingLinks := (pendingLinks srv)(code := None)\<rparr>))"
proof (cases "startsWith (toUpperCase (trim (mtext msg))) ''LINK ''")
  case False
  then show ?thesis by (simp add: handleText_def Let_def)
next
  case True
  define code where "code = trim (replaceLINK (trim (mtext msg)))"
  note ht = handleText_link [OF True code_def, of v token dbFails res now stamp srv ev]
  show ?thesis
  proof (cases "pendingLinks srv code")
    case None
    with ht show ?thesis by (simp add: finish_state)
  next
    case (Some pl)
    show ?thesis
    proof (cases "now < expires pl \<and> \<not> dbFails")
      case False
      with ht Some show ?thesis by (auto simp: finish_state)
    next
      case live: True
      with ht Some have "fst (handleText v token dbFails res now stamp srv ev msg) =
         srv\<lparr>lineLinks := (lineLinks srv)(safeEmail (email pl) \<mapsto>
                              \<lparr>lineUserId = userId ev, linkedAt = stamp\<rparr>),
              pendingLinks := (pendingLinks srv)(code := None)\<rparr>"
        by (simp add: finish_state)
      with Some live show ?thesis by blast
    qed
  qed
qed

lemma webhook_cases:
  "fst (webhook v hmac secret token dbFails res now stamp srv req) = srv \<or>
   (\<not> dbFails \<and>
    (\<exists>code pl uid. pendingLinks srv code = Some pl \<and> now < expires pl \<and>
       fst (webhook v hmac secret token dbFails res now stamp srv req) =
         srv\<lparr>lineLinks := (lineLinks srv)(safeEmail (email pl) \<mapsto>
                              \<lparr>lineUserId = uid, linkedAt = stamp\<rparr>),
              pendingLinks := (pendingLinks srv)(code := None)\<rparr>))"
proof -
  have "fst (webhook v hmac secret token dbFails res now stamp srv req) = srv \<or>
        (\<exists>ev msg. webhook v hmac secret token dbFails res now stamp srv req =
                    handleText v token dbFails res now stamp srv ev msg)"
    by (auto simp: webhook_def split: sum.splits option.splits)
  then show ?thesis
    using handleText_cases [of v token dbFails res now stamp srv] by metis
qed

section \<open>The claims\<close>

text \<open>
  C1.  A tick changes no reminder but to raise \<open>morningSent\<close>, \<open>oneHourSent\<close> or
  \<open>exactSent\<close> from false to true, and so does any run of ticks.  Whatever else fails,
  as long as the write of its flag succeeds, the notification of one trigger of one
  reminder is sent at most once over any run of ticks; and when the trigger is due at a
  tick (no operation of the store failing, no record null, the identity linked), that
  tick and any number of later ticks together send it exactly once.  Sending is the call
  of \<open>sendLine\<close>; each call makes one request to the push endpoint, or none in variant 2
  when the credential is missing (\<open>pushRequests_of_calls\<close>).
\<close>

theorem flags_only_raised_and_sent_once:
  "sameButRaised db (fst (snd (tick v fails links tz t db))) \<and>
   sameButRaised db (snd (ticks v fails links tz ts db)) \<and>
   (uniqueKeys db \<and> \<not> fails (SetSent owner rid k) \<longrightarrow>
      sentCount owner rid k (fst (ticks v fails links tz ts db)) \<le> 1) \<and>
   (wellFormed db \<and> (\<forall>op. \<not> fails op) \<and> links owner = Some link \<and>
    getReminder db owner rid = Some r \<and> due tz (computeNow tz t) k r \<longrightarrow>
      sentCount owner rid k (fst (ticks v fails links tz (t # ts) db)) = 1)"
proof (intro conjI impI)
  show "sameButRaised db (fst (snd (tick v fails links tz t db)))" by (rule tick_raised)
  show "sameButRaised db (snd (ticks v fails links tz ts db))" by (rule ticks_raised)
next
  assume "uniqueKeys db \<and> \<not> fails (SetSent owner rid k)"
  then show "sentCount owner rid k (fst (ticks v fails links tz ts db)) \<le> 1"
    using ticks_once [where fails=fails and own=owner and key=rid and k=k and db=db and v=v
        and links=links and tz=tz and ts=ts] by simp
next
  assume a: "wellFormed db \<and> (\<forall>op. \<not> fails op) \<and> links owner = Some link \<and>
    getReminder db owner rid = Some r \<and> due tz (computeNow tz t) k r"
  then have "1 \<le> sentCount owner rid k (fst (tick v fails links tz t db))"
    using tick_reached [where fails=fails and db=db and owner=owner and link=link and rid=rid
        and r=r and k=k and tz=tz and t=t and v=v and links=links] by simp
  then have "1 \<le> sentCount owner rid k (fst (ticks v fails links tz (t # ts) db))"
    by (auto simp: sentCount_append split: prod.splits)
  moreover have "sentCount owner rid k (fst (ticks v fails links tz (t # ts) db)) \<le> 1"
    using a ticks_once [where fails=fails and own=owner and key=rid and k=k and db=db and v=v
        and links=links and tz=tz and ts="t # ts"] by (simp add: wellFormed_def)
  ultimately show "sentCount owner rid k (fst (ticks v fails links tz (t # ts) db)) = 1"
    by arith
qed


theorem flags_only_raised_and_sent_once_witness:
  "sentCount ''a_x_com'' ''r1'' Exact
     (fst (ticks V2 (\<lambda>op. False) [''a_x_com'' \<mapsto> \<lparr>lineUserId = ''U1'', linkedAt = 0\<rparr>] tokyoOffset
        [1793685600000, 1793685660000, 1793685720000]
        [(''a_x_com'',
          [(''r1'', Some \<lparr>rtext = ''dentist'', timeISO = Instant 1793685600000, morning = True,
                           oneHour = True, morningSent = False, oneHourSent = False,
                           exactSent = False\<rparr>)])])) = 1 \<and>
   sentCount ''a_x_com'' ''r1'' Morning
     (fst (ticks V2 (\<lambda>op. False) [''a_x_com'' \<mapsto> \<lparr>lineUserId = ''U1'', linkedAt = 0\<rparr>] tokyoOffset
        [1793685660000, 1793685720000]
        [(''a_x_com'',
          [(''r1'', Some \<lparr>rtext = ''dentist'', timeISO = Instant 1793685600000, morning = True,
                           oneHour = True, morningSent = False, oneHourSent = False,
                           exactSent = False\<rparr>)])])) \<le> 1"
  using flags_only_raised_and_sent_once
    [where v=V2 and fails="\<lambda>op. False" and links="[''a_x_com'' \<mapsto> \<lparr>lineUserId = ''U1'', linkedAt = 0\<rparr>]"
       and tz=tokyoOffset and t=1793685600000 and ts="[1793685660000, 1793685720000]"
       and owner="''a_x_com''" and rid="''r1''" and k=Exact
       and link="\<lparr>lineUserId = ''U1'', linkedAt = 0\<rparr>"
       and r="\<lparr>rtext = ''dentist'', timeISO = Instant 1793685600000, morning = True,
                oneHour = True, morningSent = False, oneHourSent = False, exactSent = False\<rparr>"
       and db="[(''a_x_com'',
          [(''r1'', Some \<lparr>rtext = ''dentist'', timeISO = Instant 1793685600000, morning = True,
                           oneHour = True, morningSent = False, oneHourSent = False,
                           exactSent = False\<rparr>)])]"]
    flags_only_raised_and_sent_once
    [where v=V2 and fails="\<lambda>op. False" and links="[''a_x_com'' \<mapsto> \<lparr>lineUserId = ''U1'', linkedAt = 0\<rparr>]"
       and tz=tokyoOffset and ts="[1793685660000, 1793685720000]"
       and owner="''a_x_com''" and rid="''r1''" and k=Morning
       and db="[(''a_x_com'',
          [(''r1'', Some \<lparr>rtext = ''dentist'', timeISO = Instant 1793685600000, morning = True,
                           oneHour = True, morningSent = False, oneHourSent = False,
                           exactSent = False\<rparr>)])]"]
  by (simp add: wellFormed_def uniqueKeys_def getReminder_def exactDue_def computeNow_def
      tokyoCivil_def tokyoOffset_def timeClip_def maxTime_def)

text \<open>
  C2.  In the loop body, for a reminder whose \<open>exactSent\<close> is false (and when the two
  writes before it do not reject), the exact notification is sent if and only if
  \<open>0 \<le> now - eventTime < 10 minutes\<close>, it is sent once, and \<open>exactSent\<close> is true
  afterwards exactly when it was sent and the write succeeded.  An event 9 min 59 s
  before \<open>now\<close> fires; one 10 min 01 s before, or exactly 10 minutes before, does not.
  For a whole tick of either variant (no operation of the store failing, no record
  null, the identity linked), the exact notification of such a reminder is sent once
  when \<open>now\<close>, as the tick computes it, is in the window, and not at all otherwise;
  when it is sent the stored flag is set.
\<close>

theorem exact_trigger_window:
  assumes unsent: "\<not> exactSent r"
  shows
    "(\<not> fails (SetSent owner rid Morning) \<and> \<not> fails (SetSent owner rid OneHour) \<longrightarrow>
        (case evalReminder fails tz now owner uid rid r of
           (log, r', c) \<Rightarrow>
             (SendLine owner rid Exact uid (rtext r) \<in> set log \<longleftrightarrow>
                (\<exists>e. parseDate tz (timeISO r) = Some e \<and> 0 \<le> now - e \<and> now - e < 10 * 60 * 1000)) \<and>
             sentCount owner rid Exact log =
               (if SendLine owner rid Exact uid (rtext r) \<in> set log then 1 else 0) \<and>
             (exactSent r' \<longleftrightarrow>
                SendLine owner rid Exact uid (rtext r) \<in> set log \<and> \<not> fails (SetSent owner rid Exact))) \<and>
        (parseDate tz (timeISO r) = Some (now - 599000) \<longrightarrow>
           SendLine owner rid Exact uid (rtext r) \<in> set (fst (evalReminder fails tz now owner uid rid r))) \<and>
        (parseDate tz (timeISO r) = Some (now - 601000) \<longrightarrow>
           SendLine owner rid Exact uid (rtext r) \<notin> set (fst (evalReminder fails tz now owner uid rid r))) \<and>
        (parseDate tz (timeISO r) = Some (now - 600000) \<longrightarrow>
           SendLine owner rid Exact uid (rtext r) \<notin> set (fst (evalReminder fails tz now owner uid rid r)))) \<and>
     (wellFormed db \<and> (\<forall>op. \<not> fails op) \<and> links owner = Some link \<and>
      getReminder db owner rid = Some r \<longrightarrow>
        sentCount owner rid Exact (fst (tick v fails links tz t db)) =
          (if \<exists>e. parseDate tz (timeISO r) = Some e \<and> 0 \<le> computeNow tz t - e \<and>
                   computeNow tz t - e < 10 * 60 * 1000
           then 1 else 0) \<and>
        (sentCount owner rid Exact (fst (tick v fails links tz t db)) = 1 \<longrightarrow>
           flagSet (fst (snd (tick v fails links tz t db))) owner rid Exact))"
proof (intro conjI impI)
  assume a: "wellFormed db \<and> (\<forall>op. \<not> fails op) \<and> links owner = Some link \<and>
      getReminder db owner rid = Some r"
  have "due tz (computeNow tz t) Exact r =
        (\<exists>e. parseDate tz (timeISO r) = Some e \<and> 0 \<le> computeNow tz t - e \<and>
             computeNow tz t - e < 10 * 60 * 1000)"
    using unsent by (auto simp: exactDue_def split: option.splits)
  then show "sentCount owner rid Exact (fst (tick v fails links tz t db)) =
          (if \<exists>e. parseDate tz (timeISO r) = Some e \<and> 0 \<le> computeNow tz t - e \<and>
                   computeNow tz t - e < 10 * 60 * 1000
           then 1 else 0)"
    using a tick_count [where fails=fails and db=db and links=links and owner=owner and link=link
        and rid=rid and r=r and k=Exact and v=v and tz=tz and t=t] by simp
  assume "sentCount owner rid Exact (fst (tick v fails links tz t db)) = 1"
  then show "flagSet (fst (snd (tick v fails links tz t db))) owner rid Exact"
    using a tick_once [where db=db and fails=fails and own=owner and key=rid and k=Exact
        and v=v and links=links and tz=tz and t=t] by (simp add: wellFormed_def)
qed (use unsent in \<open>auto simp: evalReminder_def fire_def sentCount_def exactDue_def split: option.splits\<close>)

theorem exact_trigger_window_witness:
  "SendLine ''a_x_com'' ''r1'' Exact ''U1'' ''dentist'' \<in>
     set (fst (evalReminder (\<lambda>op. False) 0 1793685600000 ''a_x_com'' ''U1'' ''r1''
       \<lparr>rtext = ''dentist'', timeISO = Instant 1793685001000, morning = False, oneHour = False,
        morningSent = False, oneHourSent = False, exactSent = False\<rparr>)) \<and>
   SendLine ''a_x_com'' ''r1'' Exact ''U1'' ''dentist'' \<notin>
     set (fst (evalReminder (\<lambda>op. False) 0 1793685600000 ''a_x_com'' ''U1'' ''r1''
       \<lparr>rtext = ''dentist'', timeISO = Instant 1793684999000, morning = False, oneHour = False,
        morningSent = False, oneHourSent = False, exactSent = False\<rparr>)) \<and>
   sentCount ''a_x_com'' ''r1'' Exact
     (fst (tick V1 (\<lambda>op. False) [''a_x_com'' \<mapsto> \<lparr>lineUserId = ''U1'', linkedAt = 0\<rparr>] tokyoOffset
        1793685600000
        [(''a_x_com'',
          [(''r1'', Some \<lparr>rtext = ''dentist'', timeISO = Instant 1793685001000, morning = False,
                           oneHour = False, morningSent = False, oneHourSent = False,
                           exactSent = False\<rparr>)])])) = 1"
  using exact_trigger_window
    [where fails="\<lambda>op. False" and tz=0 and now=1793685600000 and owner="''a_x_com''" and uid="''U1''"
       and rid="''r1''" and db="[]"
       and r="\<lparr>rtext = ''dentist'', timeISO = Instant 1793685001000, morning = False,
                oneHour = False, morningSent = False, oneHourSent = False, exactSent = False\<rparr>"]
    exact_trigger_window
    [where fails="\<lambda>op. False" and tz=0 and now=1793685600000 and owner="''a_x_com''" and uid="''U1''"
       and rid="''r1''" and db="[]"
       and r="\<lparr>rtext = ''dentist'', timeISO = Instant 1793684999000, morning = False,
                oneHour = False, morningSent = False, oneHourSent = False, exactSent = False\<rparr>"]
    exact_trigger_window
    [where fails="\<lambda>op. False" and tz=tokyoOffset and t=1793685600000 and owner="''a_x_com''"
       and rid="''r1''" and v=V1 and link="\<lparr>lineUserId = ''U1'', linkedAt = 0\<rparr>"
       and links="[''a_x_com'' \<mapsto> \<lparr>lineUserId = ''U1'', linkedAt = 0\<rparr>]"
       and r="\<lparr>rtext = ''dentist'', timeISO = Instant 1793685001000, morning = False,
                oneHour = False, morningSent = False, oneHourSent = False, exactSent = False\<rparr>"
       and db="[(''a_x_com'',
          [(''r1'', Some \<lparr>rtext = ''dentist'', timeISO = Instant 1793685001000, morning = False,
                           oneHour = False, morningSent = False, oneHourSent = False,
                           exactSent = False\<rparr>)])]"]
  by (simp add: wellFormed_def uniqueKeys_def getReminder_def computeNow_def
      tokyoCivil_def tokyoOffset_def timeClip_def maxTime_def)

text \<open>
  C3.  The \<open>Date\<close> that a tick compares with shows Tokyo's civil time through the
  host's local getters (\<open>computeNow_shows_tokyo_time\<close>), but as an instant it moves
  with the host's offset, and it is compared with event times that do not.  At the
  instant 2026-11-03T06:00:00Z, for a reminder whose \<open>timeISO\<close> names that instant, a
  host on Asia/Tokyo computes \<open>now\<close> equal to the instant and sends the exact
  notification; a host on UTC computes a \<open>now\<close> nine hours later and sends nothing.
  (Only for a \<open>timeISO\<close> without offset, which the host reads as its own local time,
  do all hosts agree: \<open>local_time_events_same_on_every_host\<close>.)
\<close>

theorem now_depends_on_host_timezone:
  "computeNow tokyoOffset 1793685600000 = 1793685600000 \<and>
   computeNow 0 1793685600000 = 1793718000000 \<and>
   fst (tick V2 (\<lambda>op. False) [''a_x_com'' \<mapsto> \<lparr>lineUserId = ''U1'', linkedAt = 0\<rparr>] tokyoOffset
          1793685600000
          [(''a_x_com'',
            [(''r1'', Some \<lparr>rtext = ''dentist'', timeISO = Instant 1793685600000, morning = False,
                             oneHour = False, morningSent = False, oneHourSent = False,
                             exactSent = False\<rparr>)])])
     = [SendLine ''a_x_com'' ''r1'' Exact ''U1'' ''dentist''] \<and>
   fst (tick V2 (\<lambda>op. False) [''a_x_com'' \<mapsto> \<lparr>lineUserId = ''U1'', linkedAt = 0\<rparr>] 0
          1793685600000
          [(''a_x_com'',
            [(''r1'', Some \<lparr>rtext = ''dentist'', timeISO = Instant 1793685600000, morning = False,
                             oneHour = False, morningSent = False, oneHourSent = False,
                             exactSent = False\<rparr>)])])
     = []"
  by (simp add: tick_def processIdentity_def evalReminder_def fire_def exactDue_def morningDue_def
      oneHourDue_def computeNow_def tokyoCivil_def tokyoOffset_def timeClip_def maxTime_def)

text \<open>
  C4.  The morning trigger compares \<open>now\<close> with 08:00 on the date that \<open>eventTime\<close>
  has in the host's timezone.  On a host on UTC, a reminder for 2026-11-03 02:00 in Tokyo
  (2026-11-02T17:00:00Z) fires at the tick of 2026-11-02 08:00:00 Tokyo time, a civil
  day before 08:00 on the event's date in Tokyo, and it fires at 07:59:59 Tokyo time
  on the day of the event; a host on Asia/Tokyo sends nothing at the first of these ticks
  (\<open>morning_on_tokyo_host\<close> is the rule there).
\<close>

theorem morning_uses_host_date:
  "tokyoCivil 1793574000000 = 1793606400000 \<and>
   (tokyoCivil 1793638800000 div 86400000) * 86400000 + 8 * 3600000 = 1793692800000 \<and>
   fst (tick V2 (\<lambda>op. False) [''a_x_com'' \<mapsto> \<lparr>lineUserId = ''U1'', linkedAt = 0\<rparr>] 0
          1793574000000
          [(''a_x_com'',
            [(''r1'', Some \<lparr>rtext = ''flight'', timeISO = Instant 1793638800000, morning = True,
                             oneHour = False, morningSent = False, oneHourSent = False,
                             exactSent = False\<rparr>)])])
     = [SendLine ''a_x_com'' ''r1'' Morning ''U1'' ''flight''] \<and>
   fst (tick V2 (\<lambda>op. False) [''a_x_com'' \<mapsto> \<lparr>lineUserId = ''U1'', linkedAt = 0\<rparr>] tokyoOffset
          1793574000000
          [(''a_x_com'',
            [(''r1'', Some \<lparr>rtext = ''flight'', timeISO = Instant 1793638800000, morning = True,
                             oneHour = False, morningSent = False, oneHourSent = False,
                             exactSent = False\<rparr>)])])
     = [] \<and>
   tokyoCivil 1793660399000 = 1793692799000 \<and>
   morningDue 0 (computeNow 0 1793660399000)
     \<lparr>rtext = ''flight'', timeISO = Instant 1793638800000, morning = True,
      oneHour = False, morningSent = False, oneHourSent = False, exactSent = False\<rparr>"
  by (simp add: tick_def processIdentity_def evalReminder_def fire_def exactDue_def morningDue_def
      oneHourDue_def computeNow_def tokyoCivil_def tokyoOffset_def timeClip_def maxTime_def
      setHours8_def localCivil_def)

text \<open>
  C5.  The webhook's redemption does what \<open>redeem\<close> is specified to do.  For a signed
  text message that starts with \<open>LINK\<close> and carries the code, the write of the link
  succeeding: when the registry has the code and \<open>now < expires\<close>, the entry is removed,
  the link is stored and the reply carries the bound email; otherwise (code never issued,
  or \<open>expires \<le> now\<close>) the registry is as it was and the reply is the one invalid-code
  message, the same in both cases.  So a code redeemed one millisecond before it expires
  is redeemed once, a second redemption is answered with the invalid-code message, and
  so is a redemption one millisecond after it expires.
\<close>

theorem webhook_redeems_as_specified:
  assumes "verifySignature v hmac secret (rawBody req) (signature req) = Inr True"
    and "firstEvent req = Some ev" and "etype ev = ''message''"
    and "emessage ev = Some msg" and "mtype msg = ''text''"
    and "startsWith (toUpperCase (trim (mtext msg))) ''LINK ''"
    and "code = trim (replaceLINK (trim (mtext msg)))"
  shows
    "webhook v hmac secret token False res now stamp srv req =
       (case redeem_spec (pendingLinks srv) code now of
          (Email e, reg) \<Rightarrow>
            finish
              (srv\<lparr>lineLinks := (lineLinks srv)(safeEmail e \<mapsto>
                                  \<lparr>lineUserId = userId ev, linkedAt = stamp\<rparr>),
                   pendingLinks := reg\<rparr>)
              (reply v token res (replyToken ev) (LinkDone e))
        | (NotFound, reg) \<Rightarrow>
            finish (srv\<lparr>pendingLinks := reg\<rparr>) (reply v token res (replyToken ev) LinkInvalid)) \<and>
     (pendingLinks srv code = None \<or>
      (\<exists>pl. pendingLinks srv code = Some pl \<and> expires pl \<le> now) \<longrightarrow>
        webhook v hmac secret token False res now stamp srv req =
          finish srv (reply v token res (replyToken ev) LinkInvalid)) \<and>
     (\<forall>pl. pendingLinks srv code = Some pl \<longrightarrow>
        webhook v hmac secret token False res (expires pl - 1) stamp srv req =
          finish
            (srv\<lparr>lineLinks := (lineLinks srv)(safeEmail (email pl) \<mapsto>
                                \<lparr>lineUserId = userId ev, linkedAt = stamp\<rparr>),
                 pendingLinks := (pendingLinks srv)(code := None)\<rparr>)
            (reply v token res (replyToken ev) (LinkDone (email pl))) \<and>
        webhook v hmac secret token False res now stamp
            (fst (webhook v hmac secret token False res (expires pl - 1) stamp srv req)) req =
          finish (fst (webhook v hmac secret token False res (expires pl - 1) stamp srv req))
            (reply v token res (replyToken ev) LinkInvalid) \<and>
        webhook v hmac secret token False res (expires pl + 1) stamp srv req =
          finish srv (reply v token res (replyToken ev) LinkInvalid))"
proof -
  have w: "webhook v hmac secret token False res n s sv req =
     (case pendingLinks sv code of
        None \<Rightarrow> finish sv (reply v token res (replyToken ev) LinkInvalid)
      | Some pl \<Rightarrow>
          if n < expires pl then
               finish
                 (sv\<lparr>lineLinks := (lineLinks sv)(safeEmail (email pl) \<mapsto>
                                     \<lparr>lineUserId = userId ev, linkedAt = s\<rparr>),
                      pendingLinks := (pendingLinks sv)(code := None)\<rparr>)
                 (reply v token res (replyToken ev) (LinkDone (email pl)))
          else finish sv (reply v token res (replyToken ev) LinkInvalid))" for n s sv
    using webhook_text [OF assms(1-5)] handleText_link [OF assms(6,7)] by (simp split: option.splits)
  show ?thesis
  proof (intro conjI allI impI)
    show "webhook v hmac secret token False res now stamp srv req =
       (case redeem_spec (pendingLinks srv) code now of
          (Email e, reg) \<Rightarrow>
            finish
              (srv\<lparr>lineLinks := (lineLinks srv)(safeEmail e \<mapsto>
                                  \<lparr>lineUserId = userId ev, linkedAt = stamp\<rparr>),
                   pendingLinks := reg\<rparr>)
              (reply v token res (replyToken ev) (LinkDone e))
        | (NotFound, reg) \<Rightarrow>
            finish (srv\<lparr>pendingLinks := reg\<rparr>) (reply v token res (replyToken ev) LinkInvalid))"
      by (simp add: w redeem_spec_def split: option.splits)
  next
    assume "pendingLinks srv code = None \<or>
      (\<exists>pl. pendingLinks srv code = Some pl \<and> expires pl \<le> now)"
    then show "webhook v hmac secret token False res now stamp srv req =
          finish srv (reply v token res (replyToken ev) LinkInvalid)"
      by (auto simp: w)
  next
    fix pl
    assume pl: "pendingLinks srv code = Some pl"
    show first: "webhook v hmac secret token False res (expires pl - 1) stamp srv req =
          finish
            (srv\<lparr>lineLinks := (lineLinks srv)(safeEmail (email pl) \<mapsto>
                                \<lparr>lineUserId = userId ev, linkedAt = stamp\<rparr>),
                 pendingLinks := (pendingLinks srv)(code := None)\<rparr>)
            (reply v token res (replyToken ev) (LinkDone (email pl)))"
      using pl by (simp add: w)
    show "webhook v hmac secret token False res now stamp
            (fst (webhook v hmac secret token False res (expires pl - 1) stamp srv req)) req =
          finish (fst (webhook v hmac secret token False res (expires pl - 1) stamp srv req))
            (reply v token res (replyToken ev) LinkInvalid)"
      unfolding first finish_state by (simp add: w)
    show "webhook v hmac secret token False res (expires pl + 1) stamp srv req =
          finish srv (reply v token res (replyToken ev) LinkInvalid)"
      using pl by (simp add: w)
  qed
qed

theorem webhook_redeems_as_specified_witness:
  "webhook V2 (\<lambda>key body. key @ body) (Some ''secret'') (Some ''token'') False (Response True)
     300999 301000
     (fst (requestLineToken (Some ''a@x.com'') ''123456'' 1000
        \<lparr>pendingLinks = Map.empty, lineLinks = Map.empty\<rparr>))
     \<lparr>signature = Some ''secret{}'', rawBody = Some ''{}'',
      firstEvent = Some \<lparr>etype = ''message'',
                          emessage = Some \<lparr>mtype = ''text'', mtext = '' link 123456 ''\<rparr>,
                          userId = ''U1'', replyToken = ''rt''\<rparr>\<rparr> =
   (\<lparr>pendingLinks = (Map.empty(''123456'' \<mapsto> \<lparr>email = ''a@x.com'', expires = 301000\<rparr>))
                       (''123456'' := None),
     lineLinks = [''a@x_com'' \<mapsto> \<lparr>lineUserId = ''U1'', linkedAt = 301000\<rparr>]\<rparr>,
    [Post ReplyAPI ''rt'' (LinkDone ''a@x.com'')], Status 200)"
  using webhook_redeems_as_specified
    [where v=V2 and hmac="\<lambda>key body. key @ body" and secret="Some ''secret''"
       and token="Some ''token''" and res="Response True" and now=300999 and stamp=301000
       and code="''123456''"
       and srv="fst (requestLineToken (Some ''a@x.com'') ''123456'' 1000
                  \<lparr>pendingLinks = Map.empty, lineLinks = Map.empty\<rparr>)"
       and ev="\<lparr>etype = ''message'',
                 emessage = Some \<lparr>mtype = ''text'', mtext = '' link 123456 ''\<rparr>,
                 userId = ''U1'', replyToken = ''rt''\<rparr>"
       and msg="\<lparr>mtype = ''text'', mtext = '' link 123456 ''\<rparr>"
       and req="\<lparr>signature = Some ''secret{}'', rawBody = Some ''{}'',
                  firstEvent = Some \<lparr>etype = ''message'',
                          emessage = Some \<lparr>mtype = ''text'', mtext = '' link 123456 ''\<rparr>,
                          userId = ''U1'', replyToken = ''rt''\<rparr>\<rparr>"]
    example_text
  by (simp add: verifySignature_def configured_def requestLineToken_def redeem_spec_def
      finish_def reply_def safeEmail_def)

text \<open>
  C6.  Variant 1 of \<open>verifySignature\<close> has no check of the secret: without a secret
  it throws, and with the empty secret it accepts the signature made with the empty key.
  Variant 2 answers false in both cases (\<open>verifySignature_guarded\<close> is its rule).
\<close>

theorem verifySignature_unguarded_in_variant_1:
  "verifySignature V1 hmac None (Some body) sig = Inl TypeError \<and>
   verifySignature V1 hmac (Some []) (Some body) (Some (hmac [] body)) = Inr True \<and>
   verifySignature V2 hmac None (Some body) sig = Inr False \<and>
   verifySignature V2 hmac (Some []) (Some body) (Some (hmac [] body)) = Inr False"
  by (simp add: verifySignature_def configured_def)

text \<open>
  C7.  In variant 2 nothing catches what one identity throws: when the record of the
  first identity is null, or the read of its link rejects, the tick ends there and the
  due reminder of the second identity is not sent.  Variant 1 logs the error and sends it.
\<close>

theorem variant_2_tick_stops_at_first_error:
  "tick V2 (\<lambda>op. False)
      [''a_x_com'' \<mapsto> \<lparr>lineUserId = ''U1'', linkedAt = 0\<rparr>,
       ''b_x_com'' \<mapsto> \<lparr>lineUserId = ''U2'', linkedAt = 0\<rparr>]
      tokyoOffset 1793685600000
      [(''a_x_com'', [(''r0'', None)]),
       (''b_x_com'',
        [(''r1'', Some \<lparr>rtext = ''dentist'', timeISO = Instant 1793685600000, morning = False,
                         oneHour = False, morningSent = False, oneHourSent = False,
                         exactSent = False\<rparr>)])]
   = ([],
      [(''a_x_com'', [(''r0'', None)]),
       (''b_x_com'',
        [(''r1'', Some \<lparr>rtext = ''dentist'', timeISO = Instant 1793685600000, morning = False,
                         oneHour = False, morningSent = False, oneHourSent = False,
                         exactSent = False\<rparr>)])],
      Threw) \<and>
   fst (tick V2 (\<lambda>op. op = GetLink ''a_x_com'')
      [''a_x_com'' \<mapsto> \<lparr>lineUserId = ''U1'', linkedAt = 0\<rparr>,
       ''b_x_com'' \<mapsto> \<lparr>lineUserId = ''U2'', linkedAt = 0\<rparr>]
      tokyoOffset 1793685600000
      [(''a_x_com'', []),
       (''b_x_com'',
        [(''r1'', Some \<lparr>rtext = ''dentist'', timeISO = Instant 1793685600000, morning = False,
                         oneHour = False, morningSent = False, oneHourSent = False,
                         exactSent = False\<rparr>)])])
   = [] \<and>
   fst (tick V1 (\<lambda>op. False)
      [''a_x_com'' \<mapsto> \<lparr>lineUserId = ''U1'', linkedAt = 0\<rparr>,
       ''b_x_com'' \<mapsto> \<lparr>lineUserId = ''U2'', linkedAt = 0\<rparr>]
      tokyoOffset 1793685600000
      [(''a_x_com'', [(''r0'', None)]),
       (''b_x_com'',
        [(''r1'', Some \<lparr>rtext = ''dentist'', timeISO = Instant 1793685600000, morning = False,
                         oneHour = False, morningSent = False, oneHourSent = False,
                         exactSent = False\<rparr>)])])
   = [ConsoleError ''a_x_com'', SendLine ''b_x_com'' ''r1'' Exact ''U2'' ''dentist'']"
  by (simp add: tick_def processIdentity_def evalReminder_def fire_def exactDue_def morningDue_def
      oneHourDue_def computeNow_def tokyoCivil_def tokyoOffset_def timeClip_def maxTime_def)

text \<open>
  C8.  \<open>reply\<close> awaits its fetch outside any handler: when the fetch rejects, so does
  \<open>reply\<close>, in both variants.  \<open>sendLine\<close> at the same failure logs and returns.
\<close>

theorem reply_propagates_transport_failure:
  "reply V2 (Some ''token'') NetworkError replyTo txt = ([Post ReplyAPI replyTo txt], Threw) \<and>
   reply V1 token NetworkError replyTo txt = ([Post ReplyAPI replyTo txt], Threw) \<and>
   sendLine V2 (Some ''token'') NetworkError uid txt = ([Post PushAPI uid txt, ErrorLog], Returned)"
  by (simp add: reply_def sendLine_def configured_def)

text \<open>
  C9.  A request with a valid signature whose first event is absent, is not of type
  \<open>message\<close>, or is a message that is not of type \<open>text\<close>, is answered 200 and
  nothing else happens: no reply is sent, and the registry and the stored links are as
  they were.
\<close>

theorem non_text_event_discarded:
  assumes "verifySignature v hmac secret (rawBody req) (signature req) = Inr True"
    and "firstEvent req = None \<or>
         (\<exists>ev. firstEvent req = Some ev \<and>
               (etype ev \<noteq> ''message'' \<or> (\<exists>m. emessage ev = Some m \<and> mtype m \<noteq> ''text'')))"
  shows "webhook v hmac secret token dbFails res now stamp srv req = (srv, [], Status 200)"
  using assms by (auto simp: webhook_def)

theorem non_text_event_discarded_witness:
  "webhook V2 (\<lambda>key body. key @ body) (Some ''secret'') (Some ''token'') False (Response True)
     300999 301000
     \<lparr>pendingLinks = [''123456'' \<mapsto> \<lparr>email = ''a@x.com'', expires = 301000\<rparr>],
      lineLinks = Map.empty\<rparr>
     \<lparr>signature = Some ''secret{}'', rawBody = Some ''{}'',
      firstEvent = Some \<lparr>etype = ''message'',
                          emessage = Some \<lparr>mtype = ''sticker'', mtext = ''LINK 123456''\<rparr>,
                          userId = ''U1'', replyToken = ''rt''\<rparr>\<rparr> =
   (\<lparr>pendingLinks = [''123456'' \<mapsto> \<lparr>email = ''a@x.com'', expires = 301000\<rparr>],
     lineLinks = Map.empty\<rparr>, [], Status 200)"
  using non_text_event_discarded
    [where v=V2 and hmac="\<lambda>key body. key @ body" and secret="Some ''secret''"
       and token="Some ''token''" and res="Response True" and now=300999 and stamp=301000
       and dbFails=False
       and srv="\<lparr>pendingLinks = [''123456'' \<mapsto> \<lparr>email = ''a@x.com'', expires = 301000\<rparr>],
                 lineLinks = Map.empty\<rparr>"
       and req="\<lparr>signature = Some ''secret{}'', rawBody = Some ''{}'',
                  firstEvent = Some \<lparr>etype = ''message'',
                          emessage = Some \<lparr>mtype = ''sticker'', mtext = ''LINK 123456''\<rparr>,
                          userId = ''U1'', replyToken = ''rt''\<rparr>\<rparr>"]
  by (simp add: verifySignature_def configured_def)

text \<open>
  C10.  The entry of the registry is removed only after the link is stored.  A webhook
  call whose write fails changes nothing; whenever a call changes the registry, the
  write succeeded, one unexpired entry was removed and the link its email names is
  stored.  When the write fails for a valid, unexpired code, the handler throws with the
  entry in place, and the same message sent again before the expiry, the write
  succeeding, redeems the code.
\<close>

theorem link_removed_only_after_persisted:
  "(dbFails \<longrightarrow> fst (webhook v hmac secret token dbFails res now stamp srv req) = srv) \<and>
   (pendingLinks (fst (webhook v hmac secret token dbFails res now stamp srv req)) \<noteq> pendingLinks srv \<longrightarrow>
      \<not> dbFails \<and>
      (\<exists>code pl. pendingLinks srv code = Some pl \<and> now < expires pl \<and>
         pendingLinks (fst (webhook v hmac secret token dbFails res now stamp srv req)) =
           (pendingLinks srv)(code := None) \<and>
         (\<exists>l. lineLinks (fst (webhook v hmac secret token dbFails res now stamp srv req))
                 (safeEmail (email pl)) = Some l \<and> linkedAt l = stamp))) \<and>
   (verifySignature v hmac secret (rawBody req) (signature req) = Inr True \<and>
    firstEvent req = Some ev \<and> etype ev = ''message'' \<and> emessage ev = Some msg \<and>
    mtype msg = ''text'' \<and> startsWith (toUpperCase (trim (mtext msg))) ''LINK '' \<and>
    code = trim (replaceLINK (trim (mtext msg))) \<and>
    pendingLinks srv code = Some pl \<and> now < expires pl \<and> now' < expires pl \<longrightarrow>
      webhook v hmac secret token True res now stamp srv req = (srv, [], NoResponse) \<and>
      webhook v hmac secret token False res now' stamp'
          (fst (webhook v hmac secret token True res now stamp srv req)) req =
        finish
          (srv\<lparr>lineLinks := (lineLinks srv)(safeEmail (email pl) \<mapsto>
                              \<lparr>lineUserId = userId ev, linkedAt = stamp'\<rparr>),
               pendingLinks := (pendingLinks srv)(code := None)\<rparr>)
          (reply v token res (replyToken ev) (LinkDone (email pl))))"
proof (intro conjI impI)
  note c = webhook_cases [of v hmac secret token dbFails res now stamp srv req]
  {
    assume dbFails
    with c show "fst (webhook v hmac secret token dbFails res now stamp srv req) = srv" by auto
  }
  {
    assume ne: "pendingLinks (fst (webhook v hmac secret token dbFails res now stamp srv req)) \<noteq> pendingLinks srv"
    with c show "\<not> dbFails" by auto
    from c ne obtain code pl uid where
      "pendingLinks srv code = Some pl" "now < expires pl"
      "fst (webhook v hmac secret token dbFails res now stamp srv req) =
         srv\<lparr>lineLinks := (lineLinks srv)(safeEmail (email pl) \<mapsto>
                              \<lparr>lineUserId = uid, linkedAt = stamp\<rparr>),
              pendingLinks := (pendingLinks srv)(code := None)\<rparr>"
      by auto
    then show "\<exists>code pl. pendingLinks srv code = Some pl \<and> now < expires pl \<and>
         pendingLinks (fst (webhook v hmac secret token dbFails res now stamp srv req)) =
           (pendingLinks srv)(code := None) \<and>
         (\<exists>l. lineLinks (fst (webhook v hmac secret token dbFails res now stamp srv req))
                 (safeEmail (email pl)) = Some l \<and> linkedAt l = stamp)"
      by auto
  }
next
  assume a: "verifySignature v hmac secret (rawBody req) (signature req) = Inr True \<and>
    firstEvent req = Some ev \<and> etype ev = ''message'' \<and> emessage ev = Some msg \<and>
    mtype msg = ''text'' \<and> startsWith (toUpperCase (trim (mtext msg))) ''LINK '' \<and>
    code = trim (replaceLINK (trim (mtext msg))) \<and>
    pendingLinks srv code = Some pl \<and> now < expires pl \<and> now' < expires pl"
  then have st: "startsWith (toUpperCase (trim (mtext msg))) ''LINK ''"
    and cd: "code = trim (replaceLINK (trim (mtext msg)))"
    and pl: "pendingLinks srv code = Some pl" and lt: "now < expires pl"
    and lt': "now' < expires pl"
    by blast+
  have w: "webhook v hmac secret token f res n s sv req = handleText v token f res n s sv ev msg"
    for f n s sv
    using a webhook_text [where v=v and hmac=hmac and secret=secret and req=req and ev=ev and msg=msg]
    by simp
  note ht = handleText_link [OF st cd]
  show failed: "webhook v hmac secret token True res now stamp srv req = (srv, [], NoResponse)"
    unfolding w ht using pl lt by simp
  then have st0: "fst (webhook v hmac secret token True res now stamp srv req) = srv"
    by simp
  show "webhook v hmac secret token False res now' stamp'
          (fst (webhook v hmac secret token True res now stamp srv req)) req =
        finish
          (srv\<lparr>lineLinks := (lineLinks srv)(safeEmail (email pl) \<mapsto>
                              \<lparr>lineUserId = userId ev, linkedAt = stamp'\<rparr>),
               pendingLinks := (pendingLinks srv)(code := None)\<rparr>)
          (reply v token res (replyToken ev) (LinkDone (email pl)))"
    unfolding st0 using pl lt' by (simp add: w ht)
qed

theorem link_removed_only_after_persisted_witness:
  "webhook V2 (\<lambda>key body. key @ body) (Some ''secret'') (Some ''token'') True (Response True)
     300999 301000
     \<lparr>pendingLinks = [''123456'' \<mapsto> \<lparr>email = ''a@x.com'', expires = 301000\<rparr>],
      lineLinks = Map.empty\<rparr>
     \<lparr>signature = Some ''secret{}'', rawBody = Some ''{}'',
      firstEvent = Some \<lparr>etype = ''message'',
                          emessage = Some \<lparr>mtype = ''text'', mtext = '' link 123456 ''\<rparr>,
                          userId = ''U1'', replyToken = ''rt''\<rparr>\<rparr> =
   (\<lparr>pendingLinks = [''123456'' \<mapsto> \<lparr>email = ''a@x.com'', expires = 301000\<rparr>],
     lineLinks = Map.empty\<rparr>, [], NoResponse) \<and>
   snd (webhook V2 (\<lambda>key body. key @ body) (Some ''secret'') (Some ''token'') False (Response True)
     300500 300501
     (fst (webhook V2 (\<lambda>key body. key @ body) (Some ''secret'') (Some ''token'') True (Response True)
       300999 301000
       \<lparr>pendingLinks = [''123456'' \<mapsto> \<lparr>email = ''a@x.com'', expires = 301000\<rparr>],
        lineLinks = Map.empty\<rparr>
       \<lparr>signature = Some ''secret{}'', rawBody = Some ''{}'',
        firstEvent = Some \<lparr>etype = ''message'',
                          emessage = Some \<lparr>mtype = ''text'', mtext = '' link 123456 ''\<rparr>,
                          userId = ''U1'', replyToken = ''rt''\<rparr>\<rparr>))
     \<lparr>signature = Some ''secret{}'', rawBody = Some ''{}'',
      firstEvent = Some \<lparr>etype = ''message'',
                          emessage = Some \<lparr>mtype = ''text'', mtext = '' link 123456 ''\<rparr>,
                          userId = ''U1'', replyToken = ''rt''\<rparr>\<rparr>) =
   ([Post ReplyAPI ''rt'' (LinkDone ''a@x.com'')], Status 200)"
proof -
  let ?srv = "\<lparr>pendingLinks = [''123456'' \<mapsto> \<lparr>email = ''a@x.com'', expires = 301000\<rparr>],
               lineLinks = Map.empty\<rparr>"
  let ?msg = "\<lparr>mtype = ''text'', mtext = '' link 123456 ''\<rparr>"
  let ?ev = "\<lparr>etype = ''message'', emessage = Some ?msg, userId = ''U1'', replyToken = ''rt''\<rparr>"
  let ?req = "\<lparr>signature = Some ''secret{}'', rawBody = Some ''{}'', firstEvent = Some ?ev\<rparr>"
  have hyp: "verifySignature V2 (\<lambda>key body. key @ body) (Some ''secret'') (rawBody ?req)
               (signature ?req) = Inr True \<and>
    firstEvent ?req = Some ?ev \<and> etype ?ev = ''message'' \<and> emessage ?ev = Some ?msg \<and>
    mtype ?msg = ''text'' \<and> startsWith (toUpperCase (trim (mtext ?msg))) ''LINK '' \<and>
    ''123456'' = trim (replaceLINK (trim (mtext ?msg))) \<and>
    pendingLinks ?srv ''123456'' = Some \<lparr>email = ''a@x.com'', expires = 301000\<rparr> \<and>
    (300999::int) < expires \<lparr>email = ''a@x.com'', expires = 301000\<rparr> \<and>
    (300500::int) < expires \<lparr>email = ''a@x.com'', expires = 301000\<rparr>"
    using example_text by (simp add: verifySignature_def configured_def)
  have "webhook V2 (\<lambda>key body. key @ body) (Some ''secret'') (Some ''token'') True (Response True)
          300999 301000 ?srv ?req = (?srv, [], NoResponse) \<and>
        webhook V2 (\<lambda>key body. key @ body) (Some ''secret'') (Some ''token'') False (Response True)
          300500 300501
          (fst (webhook V2 (\<lambda>key body. key @ body) (Some ''secret'') (Some ''token'') True
                  (Response True) 300999 301000 ?srv ?req)) ?req =
        finish
          (?srv\<lparr>lineLinks := (lineLinks ?srv)(safeEmail (email \<lparr>email = ''a@x.com'', expires = 301000\<rparr>) \<mapsto>
                              \<lparr>lineUserId = userId ?ev, linkedAt = 300501\<rparr>),
               pendingLinks := (pendingLinks ?srv)(''123456'' := None)\<rparr>)
          (reply V2 (Some ''token'') (Response True) (replyToken ?ev)
             (LinkDone (email \<lparr>email = ''a@x.com'', expires = 301000\<rparr>)))"
    using link_removed_only_after_persisted
    [where v=V2 and hmac="\<lambda>key body. key @ body" and secret="Some ''secret''"
       and token="Some ''token''" and res="Response True" and now=300999 and stamp=301000
       and now'=300500 and stamp'=300501 and dbFails=True
       and code="''123456''" and pl="\<lparr>email = ''a@x.com'', expires = 301000\<rparr>"
       and srv="\<lparr>pendingLinks = [''123456'' \<mapsto> \<lparr>email = ''a@x.com'', expires = 301000\<rparr>],
                 lineLinks = Map.empty\<rparr>"
       and ev="\<lparr>etype = ''message'',
                 emessage = Some \<lparr>mtype = ''text'', mtext = '' link 123456 ''\<rparr>,
                 userId = ''U1'', replyToken = ''rt''\<rparr>"
       and msg="\<lparr>mtype = ''text'', mtext = '' link 123456 ''\<rparr>"
       and req="\<lparr>signature = Some ''secret{}'', rawBody = Some ''{}'',
                  firstEvent = Some \<lparr>etype = ''message'',
                          emessage = Some \<lparr>mtype = ''text'', mtext = '' link 123456 ''\<rparr>,
                          userId = ''U1'', replyToken = ''rt''\<rparr>\<rparr>"] hyp
    by blast
  then have failed: "webhook V2 (\<lambda>key body. key @ body) (Some ''secret'') (Some ''token'') True
          (Response True) 300999 301000 ?srv ?req = (?srv, [], NoResponse)"
    and retry: "webhook V2 (\<lambda>key body. key @ body) (Some ''secret'') (Some ''token'') False (Response True)
          300500 300501
          (fst (webhook V2 (\<lambda>key body. key @ body) (Some ''secret'') (Some ''token'') True
                  (Response True) 300999 301000 ?srv ?req)) ?req =
        finish
          (?srv\<lparr>lineLinks := (lineLinks ?srv)(safeEmail (email \<lparr>email = ''a@x.com'', expires = 301000\<rparr>) \<mapsto>
                              \<lparr>lineUserId = userId ?ev, linkedAt = 300501\<rparr>),
               pendingLinks := (pendingLinks ?srv)(''123456'' := None)\<rparr>)
          (reply V2 (Some ''token'') (Response True) (replyToken ?ev)
             (LinkDone (email \<lparr>email = ''a@x.com'', expires = 301000\<rparr>)))"
    by blast+
  show ?thesis
    unfolding retry unfolding failed by (simp add: finish_def reply_def configured_def)
qed

end
